theory Spec2Isabelle
  imports Complex_Main
begin

section \<open>Python values used by the two source files\<close>

text \<open>
  The development embeds \<^verbatim>\<open>process/process_dataset.py\<close> and
  \<^verbatim>\<open>src/edge_autotune/dnn/dataset.py\<close>. Python exceptions are values of
  \<open>error\<close>; a function that can raise returns \<open>error + 'a\<close> with \<open>Inl\<close>
  for the exception. The scores of \<^verbatim>\<open>process_dataset.py\<close> are exact reals: they
  are only compared, multiplied and printed there. The floats of \<^verbatim>\<open>dataset.py\<close> are
  Python floats, with NaN and the infinities.
\<close>

datatype error =
    ValueError | IndexError | KeyError | AssertionError | TypeError | AttributeError
  | OSError | BdbQuit | ZeroDivisionError

text \<open>\<^verbatim>\<open>s.split(c)\<close> for a one-character separator: never empty, \<^verbatim>\<open>''.split('.') == ['']\<close>.\<close>

fun split_on :: "char \<Rightarrow> string \<Rightarrow> string list" where
  "split_on c [] = [[]]"
| "split_on c (x # xs) =
     (if x = c then [] # split_on c xs
      else (case split_on c xs of
              [] \<Rightarrow> [[x]]
            | w # ws \<Rightarrow> (x # w) # ws))"

text \<open>\<^verbatim>\<open>xs[i]\<close> for a non-negative index: IndexError out of range.\<close>

definition py_nth :: "'a list \<Rightarrow> nat \<Rightarrow> error + 'a" where
  "py_nth xs i = (if i < length xs then Inr (xs ! i) else Inl IndexError)"

text \<open>\<^verbatim>\<open>xs[:k]\<close>: a negative \<open>k\<close> counts from the end.\<close>

definition py_prefix :: "int \<Rightarrow> 'a list \<Rightarrow> 'a list" where
  "py_prefix k xs =
     (if 0 \<le> k then take (nat k) xs else take (length xs - nat (- k)) xs)"

text \<open>\<^verbatim>\<open>sep.join(parts)\<close>.\<close>

fun join :: "string \<Rightarrow> string list \<Rightarrow> string" where
  "join sep [] = []"
| "join sep [w] = w"
| "join sep (w # v # ws) = w @ sep @ join sep (v # ws)"

text \<open>\<^verbatim>\<open>str(n)\<close> for an integer: its decimal digits, with a minus sign below zero.\<close>

definition digit :: "nat \<Rightarrow> char" where
  "digit d = char_of (48 + d)"

fun str_nat :: "nat \<Rightarrow> string" where
  "str_nat n = (if n < 10 then [digit n] else str_nat (n div 10) @ [digit (n mod 10)])"

declare str_nat.simps [simp del]

definition str_int :: "int \<Rightarrow> string" where
  "str_int i = (if i < 0 then CHR ''-'' # str_nat (nat (- i)) else str_nat (nat i))"

text \<open>
  \<^verbatim>\<open>Path(p).name\<close> and \<^verbatim>\<open>Path(p).stem\<close> as pathlib computes them: the name is the
  last component; with \<open>i\<close> the position of the last dot of the name, the stem is
  \<^verbatim>\<open>name[:i]\<close> when \<^verbatim>\<open>0 < i < len(name) - 1\<close> and the whole name otherwise.
  A path is the string pathlib prints for it, so it has no trailing slash.
\<close>

definition path_name :: "string \<Rightarrow> string" where
  "path_name p = last (split_on CHR ''/'' p)"

definition stem :: "string \<Rightarrow> string" where
  "stem p =
     (let name = path_name p;
          after = length (takeWhile (\<lambda>x. x \<noteq> CHR ''.'') (rev name))
      in if CHR ''.'' \<in> set name \<and> 0 < length name - 1 - after \<and> 0 < after
         then take (length name - 1 - after) name
         else name)"

section \<open>Chunking (\<^verbatim>\<open>chunks\<close>, lines 159-162)\<close>

text \<open>
  \<^verbatim>\<open>for i in range(0, len(lst), n): yield lst[i:i + n]\<close>.
  For a positive step the first slice is \<^verbatim>\<open>lst[0:n]\<close> and the rest are the slices of
  \<^verbatim>\<open>lst[n:]\<close>; \<^verbatim>\<open>range\<close> raises ValueError for step 0 and is empty for a negative
  step, since the start 0 is not above \<^verbatim>\<open>len(lst)\<close>.
\<close>

function chunks_from :: "nat \<Rightarrow> 'a list \<Rightarrow> 'a list list" where
  "chunks_from n xs =
     (if n = 0 \<or> xs = [] then [] else take n xs # chunks_from n (drop n xs))"
  by pat_completeness auto
termination
  by (relation "measure (\<lambda>(n, xs). length xs)") auto

declare chunks_from.simps [simp del]

definition chunks :: "'a list \<Rightarrow> int \<Rightarrow> error + 'a list list" where
  "chunks lst n =
     (if n = 0 then Inl ValueError
      else if n < 0 then Inr []
      else Inr (chunks_from (nat n) lst))"

text \<open>Lines 222-223: the worker count is lowered to the number of tasks when there
  are fewer than \<^verbatim>\<open>max_workers*2\<close> of them.\<close>

definition clamp_workers :: "'a list \<Rightarrow> int \<Rightarrow> int" where
  "clamp_workers query_args max_workers =
     (if int (length query_args) < max_workers * 2 then int (length query_args)
      else max_workers)"

text \<open>Lines 222-223 and 231 together: the waves the loop iterates over.\<close>

definition waves_of :: "'a list \<Rightarrow> int \<Rightarrow> error + 'a list list" where
  "waves_of query_args max_workers =
     chunks query_args (clamp_workers query_args max_workers * 2)"

text \<open>A loop that collects results and stops at the first exception.\<close>

fun traverse :: "('a \<Rightarrow> error + 'b) \<Rightarrow> 'a list \<Rightarrow> error + 'b list" where
  "traverse f [] = Inr []"
| "traverse f (x # xs) =
     (case f x of
        Inl e \<Rightarrow> Inl e
      | Inr y \<Rightarrow> (case traverse f xs of Inl e \<Rightarrow> Inl e | Inr ys \<Rightarrow> Inr (y # ys)))"

section \<open>Top-K reduction (\<^verbatim>\<open>get_top_torch\<close>, \<^verbatim>\<open>get_top_tf\<close>, lines 56-81)\<close>

text \<open>
  The per-frame result is a dict. The classification path builds
  \<^verbatim>\<open>{'idxs': results[0], 'scores': results[1]}\<close>, two lists of strings; the
  detection path builds \<^verbatim>\<open>{'boxes': ..., 'scores': ..., 'idxs': ...}\<close>.
\<close>

datatype top =
    TorchTop "string list" "string list"
  | TFTop "real list list" "real list" "int list"

text \<open>
  \<^verbatim>\<open>numpy.argpartition(a, kth)\<close> is a library routine whose result is fixed only up
  to what numpy documents: it raises ValueError unless \<open>kth < len(a)\<close>, and otherwise
  returns a permutation \<open>p\<close> of the indices with \<open>a[p[kth]]\<close> in its sorted position,
  no larger element before it and no smaller one after it. The routine is a parameter
  of \<open>get_top_torch\<close>; \<open>argpartition_spec\<close> is the documented contract.
\<close>

definition argpartition_spec :: "real list \<Rightarrow> nat \<Rightarrow> nat list \<Rightarrow> bool" where
  "argpartition_spec a kth p =
     (kth < length a \<and> length p = length a \<and>
      list_all (\<lambda>i. i \<in> set p) [0..<length a] \<and>
      list_all (\<lambda>i. a ! (p ! i) \<le> a ! (p ! kth)) [0..<kth] \<and>
      list_all (\<lambda>i. a ! (p ! kth) \<le> a ! (p ! i)) [kth..<length a])"

text \<open>
  \<open>fmt2\<close> is the float formatting \<^verbatim>\<open>f'{x:.2f}'\<close>. \<open>topn\<close> is a Python int;
  \<^verbatim>\<open>infer_video\<close> always passes the default 10.
\<close>

definition get_top_torch ::
  "(real list \<Rightarrow> nat \<Rightarrow> error + nat list) \<Rightarrow> (real \<Rightarrow> string) \<Rightarrow> real list \<Rightarrow> int \<Rightarrow> error + top"
where
  "get_top_torch argpartition fmt2 preds topn0 =
     (let topn = (if topn0 > int (length preds) then int (length preds) else topn0) in
      case argpartition (map uminus preds) 5 of
        Inl e \<Rightarrow> Inl e
      | Inr part \<Rightarrow>
          (let idxs = py_prefix topn part in
           case traverse (\<lambda>idx. case py_nth preds idx of
                                   Inl e \<Rightarrow> Inl e
                                 | Inr x \<Rightarrow> Inr [str_nat idx, fmt2 x]) idxs of
             Inl e \<Rightarrow> Inl e
           | Inr results \<Rightarrow>
               (case py_nth results 0 of
                  Inl e \<Rightarrow> Inl e
                | Inr r0 \<Rightarrow>
                    (case py_nth results 1 of
                       Inl e \<Rightarrow> Inl e
                     | Inr r1 \<Rightarrow> Inr (TorchTop r0 r1)))))"

text \<open>The detection model's output, without its leading batch dimension of size 1.\<close>

record tf_preds =
  detection_boxes :: "real list list"
  detection_scores :: "real list"
  detection_classes :: "real list"

text \<open>\<^verbatim>\<open>int(x)\<close> and \<^verbatim>\<open>.astype(int)\<close> on a float: truncation towards zero.\<close>

definition trunc_int :: "real \<Rightarrow> int" where
  "trunc_int x = (if 0 \<le> x then \<lfloor>x\<rfloor> else \<lceil>x\<rceil>)"

definition get_top_tf :: "tf_preds \<Rightarrow> int \<Rightarrow> top" where
  "get_top_tf preds topn =
     TFTop (py_prefix topn (detection_boxes preds))
           (py_prefix topn (detection_scores preds))
           (map trunc_int (py_prefix topn (detection_classes preds)))"

section \<open>Per-video inference (\<^verbatim>\<open>infer_video\<close>, \<^verbatim>\<open>process_video\<close>, lines 84-156)\<close>

text \<open>
  What the coordinator does not compute itself is collected in an environment:
  the decoder (\<open>decode\<close>: the frames \<^verbatim>\<open>cap.read()\<close> yields before its first failure),
  the frames' shapes, model inference, numpy's partition, float formatting,
  pandas' timestamp parsing (\<open>to_datetime\<close>: \<^verbatim>\<open>pd.to_datetime(ts)\<close> with its
  date, hour and minute read off as strings, or the exception it raises), the keys
  of the global \<^verbatim>\<open>models\<close> dict, \<^verbatim>\<open>os.path.isfile\<close> and
  \<^verbatim>\<open>shutil.move\<close> (\<open>None\<close> when the file is moved, the exception otherwise).
\<close>

record 'f env =
  decode :: "string \<Rightarrow> 'f list"
  frame_shape_of :: "'f \<Rightarrow> nat list"
  infer_torch :: "string \<Rightarrow> 'f \<Rightarrow> real list"
  infer_tf :: "string \<Rightarrow> 'f \<Rightarrow> tf_preds"
  argpartition :: "real list \<Rightarrow> nat \<Rightarrow> error + nat list"
  fmt2 :: "real \<Rightarrow> string"
  fmt3 :: "real \<Rightarrow> string"
  to_datetime :: "string \<Rightarrow> error + (string \<times> string \<times> string)"
  models :: "string list"
  isfile :: "string \<Rightarrow> bool"
  shutil_move :: "string \<Rightarrow> string \<Rightarrow> error option"

text \<open>The \<^verbatim>\<open>while ret\<close> loop of \<^verbatim>\<open>infer_video\<close> over the frames read.\<close>

fun infer_frames :: "'f env \<Rightarrow> string \<Rightarrow> string \<Rightarrow> 'f list \<Rightarrow> error + top list" where
  "infer_frames env model framework [] = Inr []"
| "infer_frames env model framework (frame # rest) =
     (case (if framework = ''torch''
            then get_top_torch (argpartition env) (fmt2 env) (infer_torch env model frame) 10
            else Inr (get_top_tf (infer_tf env model frame) 10)) of
        Inl e \<Rightarrow> Inl e
      | Inr t \<Rightarrow>
          (case infer_frames env model framework rest of
             Inl e \<Rightarrow> Inl e
           | Inr data \<Rightarrow> Inr (t # data)))"

definition infer_video ::
  "'f env \<Rightarrow> string \<Rightarrow> string \<Rightarrow> string \<Rightarrow> error + (top list \<times> nat list)"
where
  "infer_video env filename model framework =
     (let frames = decode env filename;
          frame_shape = (case frames of [] \<Rightarrow> [0, 0] | frame # _ \<Rightarrow> frame_shape_of env frame)
      in case infer_frames env model framework frames of
           Inl e \<Rightarrow> Inl e
         | Inr data \<Rightarrow> Inr (data, frame_shape))"

text \<open>
  A row of the per-video pickle:
  \<^verbatim>\<open>[frame, class_id, score, xmin, ymin, xmax, ymax]\<close>. The classification dict has
  no \<^verbatim>\<open>'boxes'\<close> key, so \<^verbatim>\<open>d['boxes']\<close> raises KeyError there.
\<close>

type_synonym pkl_row = "nat \<times> int \<times> real \<times> int \<times> int \<times> int \<times> int"

fun pickle_frame :: "nat list \<Rightarrow> nat \<Rightarrow> top \<Rightarrow> error + pkl_row list" where
  "pickle_frame frame_shape i (TorchTop idxs scores) = Inl KeyError"
| "pickle_frame frame_shape i (TFTop boxes scores idxs) =
     traverse (\<lambda>j.
       case py_nth idxs j of
         Inl e \<Rightarrow> Inl e
       | Inr class_id \<Rightarrow>
           (case py_nth scores j of
              Inl e \<Rightarrow> Inl e
            | Inr score \<Rightarrow>
                (case boxes ! j of
                   [ymin, xmin, ymax, xmax] \<Rightarrow>
                     (case py_nth frame_shape 1 of
                        Inl e \<Rightarrow> Inl e
                      | Inr w \<Rightarrow>
                          (case py_nth frame_shape 0 of
                             Inl e \<Rightarrow> Inl e
                           | Inr h \<Rightarrow>
                               Inr (i, class_id, score,
                                    trunc_int (xmin * real w), trunc_int (ymin * real h),
                                    trunc_int (xmax * real w), trunc_int (ymax * real h))))
                 | _ \<Rightarrow> Inl ValueError)))
       [0..<length boxes]"

text \<open>
  \<^verbatim>\<open>','.join(f'{s:.3f}' for s in p['scores'])\<close>: the format code \<^verbatim>\<open>f\<close> applied to a
  string raises ValueError, and the classification dict holds strings.
  \<^verbatim>\<open>','.join(str(c) for c in p['idxs'])\<close> works on both.
\<close>

fun format_scores :: "(real \<Rightarrow> string) \<Rightarrow> top \<Rightarrow> error + string" where
  "format_scores fmt (TorchTop idxs scores) = (if scores = [] then Inr [] else Inl ValueError)"
| "format_scores fmt (TFTop boxes scores idxs) = Inr (join '','' (map fmt scores))"

fun format_classes :: "top \<Rightarrow> string" where
  "format_classes (TorchTop idxs scores) = join '','' idxs"
| "format_classes (TFTop boxes scores idxs) = join '','' (map str_int idxs)"

text \<open>A row a worker returns: \<^verbatim>\<open>[i, s, classes[i]]\<close>, one per frame.\<close>

type_synonym subrow = "nat \<times> string \<times> string"

definition pkl_path :: "string \<Rightarrow> string \<Rightarrow> string" where
  "pkl_path output v = output @ ''/'' @ stem v @ ''.pkl''"

text \<open>
  \<^verbatim>\<open>process_video\<close> returns its rows; the pickle it writes (when an output directory
  is given and the video has frames) is returned beside them as path and content.
\<close>

definition process_video ::
  "'f env \<Rightarrow> string \<Rightarrow> string \<Rightarrow> string \<Rightarrow> string option
     \<Rightarrow> error + (subrow list \<times> (string \<times> pkl_row list) option)"
where
  "process_video env filename model framework output =
     (case infer_video env filename model framework of
        Inl e \<Rightarrow> Inl e
      | Inr (data, frame_shape) \<Rightarrow>
          (case (case output of
                   None \<Rightarrow> Inr None
                 | Some out \<Rightarrow>
                     if 0 < length data
                     then (case traverse (\<lambda>(i, d). pickle_frame frame_shape i d)
                                  (enumerate 0 data) of
                             Inl e \<Rightarrow> Inl e
                           | Inr df_data \<Rightarrow> Inr (Some (pkl_path out filename, concat df_data)))
                     else Inr None) of
             Inl e \<Rightarrow> Inl e
           | Inr pkl \<Rightarrow>
               (case traverse (format_scores (fmt3 env)) data of
                  Inl e \<Rightarrow> Inl e
                | Inr scores \<Rightarrow>
                    (let classes = map format_classes data;
                         rows = map (\<lambda>(i, s). (i, s, classes ! i)) (enumerate 0 scores)
                     in Inr (rows, pkl)))))"

text \<open>\<^verbatim>\<open>models[model]\<close> raises KeyError for a model that was not loaded.\<close>

definition process_video_parallel ::
  "'f env \<Rightarrow> string \<times> string \<times> string \<times> string option
     \<Rightarrow> error + (subrow list \<times> (string \<times> pkl_row list) option)"
where
  "process_video_parallel env args =
     (case args of (filename, model, framework, output) \<Rightarrow>
        if model \<in> set (models env)
        then process_video env filename model framework output
        else Inl KeyError)"

section \<open>The coordinator (\<^verbatim>\<open>process_dataset\<close>, lines 174-271)\<close>

text \<open>A row of the accumulated \<^verbatim>\<open>detections\<close> table, in the order of \<^verbatim>\<open>columns\<close>.\<close>

record row =
  cam :: string
  timestamp :: string
  date :: string
  hour :: string
  minute :: string
  frame_id :: nat
  model :: string
  top_scores :: string
  top_classes :: string

text \<open>
  What the coordinator's own thread does to the disk, in order:
  \<open>WriteTmp k t\<close> writes the table \<open>t\<close> to
  \<^verbatim>\<open>{output}/{dataset_name}.tmp.csv.{k}\<close>, \<open>WriteFinal t\<close> writes it to
  \<^verbatim>\<open>{output}/{dataset_name}.csv\<close>, \<open>Move f d\<close> is \<^verbatim>\<open>shutil.move(f, d)\<close>.
\<close>

datatype event = WriteTmp int "row list" | WriteFinal "row list" | Move string string

record state =
  detections :: "row list"
  videos_processed :: "string \<rightharpoonup> int"
  effects :: "event list"

definition init_state :: state where
  "init_state = \<lparr>detections = [], videos_processed = Map.empty, effects = []\<rparr>"

text \<open>A run either reaches the end of the function or is cut by an exception;
  either way the state reached is kept (files already written stay on disk).\<close>

datatype outcome = Finished state | Aborted error state

text \<open>Lines 165-171: \<^verbatim>\<open>split_date\<close> returns the date, hour and minute as strings.\<close>

definition split_date :: "'f env \<Rightarrow> string \<Rightarrow> error + (string \<times> string \<times> string)" where
  "split_date env ts = to_datetime env ts"

text \<open>
  Lines 197-201 (and 240-242): the timestamp and the camera are the first two
  dot-separated fields of the stem, and the bucket key is
  \<^verbatim>\<open>f'[{cam}] {date}:{hour}'\<close>.
\<close>

definition stem_fields :: "string \<Rightarrow> error + (string \<times> string)" where
  "stem_fields f =
     (case py_nth (split_on CHR ''.'' (stem f)) 0 of
        Inl e \<Rightarrow> Inl e
      | Inr ts \<Rightarrow>
          (case py_nth (split_on CHR ''.'' (stem f)) 1 of
             Inl e \<Rightarrow> Inl e
           | Inr cam_name \<Rightarrow> Inr (ts, cam_name)))"

definition date_hour_key ::
  "'f env \<Rightarrow> string \<Rightarrow> error + string"
where
  "date_hour_key env f =
     (case stem_fields f of
        Inl e \<Rightarrow> Inl e
      | Inr (ts, cam_name) \<Rightarrow>
          (case split_date env ts of
             Inl e \<Rightarrow> Inl e
           | Inr (d, h, m) \<Rightarrow>
               Inr (''['' @ cam_name @ ''] '' @ d @ '':'' @ h)))"

text \<open>
  \<^verbatim>\<open>processed_ts = defaultdict(bool)\<close>: a missing key reads as \<^verbatim>\<open>False\<close>, a stored
  stem is truthy unless it is the empty string.
\<close>

definition truthy :: "(string \<rightharpoonup> string) \<Rightarrow> string \<Rightarrow> bool" where
  "truthy processed_ts k = (case processed_ts k of None \<Rightarrow> False | Some s \<Rightarrow> s \<noteq> [])"

text \<open>The loop of lines 196-206 (fast mode), with its two variables.\<close>

fun fast_select ::
  "'f env \<Rightarrow> string list \<Rightarrow> string list
     \<Rightarrow> (string \<rightharpoonup> string) \<Rightarrow> error + string list"
where
  "fast_select env [] videos processed_ts = Inr videos"
| "fast_select env (f # dataset) videos processed_ts =
     (case date_hour_key env f of
        Inl e \<Rightarrow> Inl e
      | Inr date_hour \<Rightarrow>
          if truthy processed_ts date_hour
          then fast_select env dataset videos processed_ts
          else fast_select env dataset (videos @ [f])
                 (processed_ts(date_hour \<mapsto> stem f)))"

definition enumerate_videos ::
  "'f env \<Rightarrow> bool \<Rightarrow> string list \<Rightarrow> error + string list"
where
  "enumerate_videos env process_all dataset =
     (if process_all then Inr dataset else fast_select env dataset [] Map.empty)"

text \<open>Line 210: videos whose pickle is already in the output directory are dropped.\<close>

definition skip_processed :: "'f env \<Rightarrow> string \<Rightarrow> string list \<Rightarrow> string list" where
  "skip_processed env output videos = filter (\<lambda>v. \<not> isfile env (pkl_path output v)) videos"

text \<open>Lines 227-229: one past the highest index found, 0 when there is none.\<close>

definition previous_tmp_files :: "int list \<Rightarrow> int" where
  "previous_tmp_files tmp_files =
     (if 0 < length tmp_files then Max (set tmp_files) + 1 else 0)"

text \<open>Lines 240-250: the worker's rows tagged with what the file name gives.\<close>

definition tag_rows ::
  "'f env \<Rightarrow> string \<Rightarrow> string \<Rightarrow> subrow list
     \<Rightarrow> error + row list"
where
  "tag_rows env model_name filename r =
     (case stem_fields filename of
        Inl e \<Rightarrow> Inl e
      | Inr (ts, cam_name) \<Rightarrow>
          (case split_date env ts of
             Inl e \<Rightarrow> Inl e
           | Inr (d, h, m) \<Rightarrow>
               Inr (map (\<lambda>(i, s, c).
                      \<lparr>cam = cam_name, timestamp = ts, date = d, hour = h, minute = m,
                       frame_id = i, model = model_name, top_scores = s, top_classes = c\<rparr>) r)))"

text \<open>
  The loop of lines 235-260 over the results of one wave. \<^verbatim>\<open>executor.map\<close> yields
  the results in the order of the chunk and re-raises a worker's exception when its
  result is reached. \<open>worker\<close> is \<^verbatim>\<open>process_video_parallel\<close> applied to the task
  of a video; \<open>file_idx\<close> is \<^verbatim>\<open>chunk_idx+previous_tmp_files\<close>.
\<close>

fun collect_results ::
  "'f env \<Rightarrow> string \<Rightarrow> (string \<Rightarrow> error + subrow list)
     \<Rightarrow> int \<Rightarrow> string list \<Rightarrow> state \<Rightarrow> outcome"
where
  "collect_results env model_name worker file_idx [] st = Finished st"
| "collect_results env model_name worker file_idx (filename # rest) st =
     (case worker filename of
        Inl e \<Rightarrow> Aborted e st
      | Inr r \<Rightarrow>
          if length r = 0
          then collect_results env model_name worker file_idx rest st
          else (case tag_rows env model_name filename r of
                  Inl e \<Rightarrow> Aborted e st
                | Inr df \<Rightarrow>
                    collect_results env model_name worker file_idx rest
                      (st\<lparr>detections := detections st @ df,
                          effects := effects st @ [WriteTmp file_idx (detections st @ df)]\<rparr>)))"

text \<open>
  Lines 262-266, after the loop over the results: \<^verbatim>\<open>filename\<close> still holds the video
  of the last result. \<^verbatim>\<open>videos_processed\<close> is a \<^verbatim>\<open>defaultdict(int)\<close>: a missing
  key reads as 0. The counter is incremented first; when \<^verbatim>\<open>shutil.move\<close> raises, the
  incremented entry stays and the run ends.
\<close>

definition counter :: "(string \<rightharpoonup> int) \<Rightarrow> string \<Rightarrow> int" where
  "counter processed filename = (case processed filename of None \<Rightarrow> 0 | Some c \<Rightarrow> c)"

definition track_completion ::
  "'f env \<Rightarrow> nat \<Rightarrow> string option \<Rightarrow> string \<Rightarrow> state \<Rightarrow> outcome"
where
  "track_completion env n_models move_when_done filename st =
     (let count = counter (videos_processed st) filename + 1;
          st1 = st\<lparr>videos_processed := (videos_processed st)(filename \<mapsto> count)\<rparr>
      in case move_when_done of
           None \<Rightarrow> Finished st1
         | Some target \<Rightarrow>
             if count = int n_models
             then (case shutil_move env filename target of
                     Some e \<Rightarrow> Aborted e st1
                   | None \<Rightarrow>
                       Finished (st1\<lparr>videos_processed := (videos_processed st1)(filename := None),
                                     effects := effects st1 @ [Move filename target]\<rparr>))
             else Finished st1)"

text \<open>
  One iteration of the loop of line 231. Every chunk the generator yields is
  non-empty, so the last result's video is the last video of the chunk. The pool
  of line 232 is created with the lowered worker count, which is positive whenever
  there is a chunk (the generator yields one only for a positive chunk size), so
  its constructor cannot raise here.
\<close>

definition wave ::
  "'f env \<Rightarrow> string \<Rightarrow> (string \<Rightarrow> error + subrow list)
     \<Rightarrow> nat \<Rightarrow> string option \<Rightarrow> int \<Rightarrow> nat \<Rightarrow> string list \<Rightarrow> state \<Rightarrow> outcome"
where
  "wave env model_name worker n_models move_when_done previous chunk_idx chunk st =
     (case collect_results env model_name worker (int chunk_idx + previous) chunk st of
        Aborted e st' \<Rightarrow> Aborted e st'
      | Finished st' \<Rightarrow> track_completion env n_models move_when_done (last chunk) st')"

fun run_waves ::
  "'f env \<Rightarrow> string \<Rightarrow> (string \<Rightarrow> error + subrow list)
     \<Rightarrow> nat \<Rightarrow> string option \<Rightarrow> int \<Rightarrow> nat \<Rightarrow> string list list \<Rightarrow> state \<Rightarrow> outcome"
where
  "run_waves env model_name worker n_models move_when_done previous chunk_idx [] st =
     Finished st"
| "run_waves env model_name worker n_models move_when_done previous chunk_idx
     (chunk # rest) st =
     (case wave env model_name worker n_models move_when_done previous chunk_idx chunk st of
        Aborted e st' \<Rightarrow> Aborted e st'
      | Finished st' \<Rightarrow>
          run_waves env model_name worker n_models move_when_done previous
            (Suc chunk_idx) rest st')"

text \<open>
  Lines 208-231: the videos to dispatch. \<^verbatim>\<open>query_args\<close> pairs every video with the
  same model, framework and output, so a task is identified by its video.
\<close>

definition videos_to_process ::
  "'f env \<Rightarrow> string \<Rightarrow> bool \<Rightarrow> bool \<Rightarrow> string list \<Rightarrow> error + string list"
where
  "videos_to_process env output per_video_results process_all dataset =
     (case enumerate_videos env process_all dataset of
        Inl e \<Rightarrow> Inl e
      | Inr videos \<Rightarrow>
          Inr (if per_video_results then skip_processed env output videos else videos))"

text \<open>
  What \<^verbatim>\<open>executor.map(process_video_parallel, chunk)\<close> yields for the task
  \<^verbatim>\<open>[video, model, framework, video_results_output]\<close>: the rows (the pickle is
  the worker's own effect).
\<close>

definition dataset_worker ::
  "'f env \<Rightarrow> string \<Rightarrow> string \<Rightarrow> string option \<Rightarrow> string \<Rightarrow> error + subrow list"
where
  "dataset_worker env model_name framework video_results_output video =
     (case process_video_parallel env (video, model_name, framework, video_results_output) of
        Inl e \<Rightarrow> Inl e
      | Inr (rows, pkl) \<Rightarrow> Inr rows)"

text \<open>
  The function. \<open>tmp_on_disk\<close> lists, for every file line 226 globs, what
  \<^verbatim>\<open>int(str(tmp.suffix).split('.')[1])\<close> gives for it. The final table is written
  (line 268) only when the loop ends without an exception. \<^verbatim>\<open>dataset_name\<close> only
  names the files written and is left out.
\<close>

definition process_dataset ::
  "'f env \<Rightarrow> (error + int) list \<Rightarrow> string list \<Rightarrow> string \<Rightarrow> string \<Rightarrow> string \<Rightarrow> bool \<Rightarrow> bool
     \<Rightarrow> string option \<Rightarrow> int \<Rightarrow> outcome"
where
  "process_dataset env tmp_on_disk dataset model_name framework output per_video_results
     process_all move_when_done max_workers =
     (case videos_to_process env output per_video_results process_all dataset of
        Inl e \<Rightarrow> Aborted e init_state
      | Inr videos \<Rightarrow>
          (let video_results_output = (if per_video_results then Some output else None);
               worker = dataset_worker env model_name framework video_results_output
           in case traverse (\<lambda>x. x) tmp_on_disk of
                Inl e \<Rightarrow> Aborted e init_state
              | Inr tmp_files \<Rightarrow>
                  (case waves_of videos max_workers of
                     Inl e \<Rightarrow> Aborted e init_state
                   | Inr cs \<Rightarrow>
                       (case run_waves env model_name worker
                               (length (models env)) move_when_done
                               (previous_tmp_files tmp_files) 0 cs init_state of
                          Aborted e st \<Rightarrow> Aborted e st
                        | Finished st \<Rightarrow>
                            Finished (st\<lparr>effects := effects st @ [WriteFinal (detections st)]\<rparr>)))))"

section \<open>Export validation (\<^verbatim>\<open>create_tf_example\<close>, dataset.py lines 36-81)\<close>

text \<open>
  A Python float: a finite double (its value), an infinity or NaN. The comparisons
  are those of IEEE 754: every comparison with NaN is false.
\<close>

datatype pyfloat = NaN | NegInf | Fin real | PosInf

fun float_lt :: "pyfloat \<Rightarrow> pyfloat \<Rightarrow> bool" where
  "float_lt (Fin x) (Fin y) = (x < y)"
| "float_lt (Fin x) PosInf = True"
| "float_lt NegInf (Fin y) = True"
| "float_lt NegInf PosInf = True"
| "float_lt a b = False"

definition float_le :: "pyfloat \<Rightarrow> pyfloat \<Rightarrow> bool" where
  "float_le a b = (float_lt a b \<or> (a = b \<and> a \<noteq> NaN))"

text \<open>The double that Python reads from the literal \<^verbatim>\<open>1.1\<close>: \<^verbatim>\<open>0x1.199999999999ap+0\<close>.\<close>

definition double_1_1 :: real where
  "double_1_1 = 2476979795053773 / 2251799813685248"

text \<open>
  A cell of the table of detections, as \<^verbatim>\<open>iterrows\<close> hands it over: a number (an
  empty cell of the CSV is the float NaN) or a string, which UTF-8 can encode as
  every string read from a CSV file. A row maps the names of the columns to cells;
  a group is the file name of an image and the rows of its boxes. The label map
  gives the ids of a label map file, which the int64 feature of the example holds.
\<close>

datatype cell = Num pyfloat | Str string

record image_group =
  group_filename :: cell
  group_object :: "(string \<rightharpoonup> cell) list"

text \<open>
  What the function takes from outside: \<open>open_image\<close> is lines 37-41 (reading the
  file, \<^verbatim>\<open>Image.open\<close> and \<^verbatim>\<open>image.size\<close>), giving the width, the height and the bytes
  read, or the exception raised; \<open>truediv\<close> is the division of a number of the table
  by an \<^verbatim>\<open>int\<close> in double precision, with what it gives for a zero divisor, an
  infinity or NaN; \<open>pdb_session\<close> is, for the line at which the debugger is
  entered, the exception with which its session ends (\<^verbatim>\<open>BdbQuit\<close> when the
  debugger is quit or its input is at end of file), \<open>None\<close> when the program is
  continued from it unchanged.
\<close>

record 'b image_env =
  open_image :: "cell \<Rightarrow> error + (nat \<times> nat \<times> 'b)"
  truediv :: "pyfloat \<Rightarrow> nat \<Rightarrow> error + pyfloat"
  pdb_session :: "nat \<Rightarrow> error option"

record norm_row =
  nxmin :: pyfloat
  nxmax :: pyfloat
  nymin :: pyfloat
  nymax :: pyfloat
  ntext :: string
  nlabel :: int

record 'b tf_example =
  image_height :: nat
  image_width :: nat
  image_filename :: string
  image_encoded :: 'b
  bbox_xmin :: "pyfloat list"
  bbox_xmax :: "pyfloat list"
  bbox_ymin :: "pyfloat list"
  bbox_ymax :: "pyfloat list"
  class_text :: "string list"
  class_label :: "int list"

text \<open>
  \<^verbatim>\<open>row[k] / n\<close> (lines 53-56): KeyError without the column, TypeError for a string.
\<close>

definition coordinate ::
  "'b image_env \<Rightarrow> (string \<rightharpoonup> cell) \<Rightarrow> string \<Rightarrow> nat \<Rightarrow> error + pyfloat"
where
  "coordinate env r k n =
     (case r k of
        None \<Rightarrow> Inl KeyError
      | Some (Str s) \<Rightarrow> Inl TypeError
      | Some (Num x) \<Rightarrow> truediv env x n)"

text \<open>
  Lines 57-58: \<^verbatim>\<open>row['class'].encode('utf8')\<close> needs a string, then
  \<^verbatim>\<open>id_map[row['class']]\<close> needs the class in the label map.
\<close>

definition class_of :: "(string \<rightharpoonup> int) \<Rightarrow> (string \<rightharpoonup> cell) \<Rightarrow> error + (string \<times> int)" where
  "class_of id_map r =
     (case r ''class'' of
        None \<Rightarrow> Inl KeyError
      | Some (Num x) \<Rightarrow> Inl AttributeError
      | Some (Str c) \<Rightarrow>
          (case id_map c of None \<Rightarrow> Inl KeyError | Some i \<Rightarrow> Inr (c, i)))"

text \<open>The body of the loop over the rows (lines 52-58).\<close>

definition convert_row ::
  "'b image_env \<Rightarrow> nat \<Rightarrow> nat \<Rightarrow> (string \<rightharpoonup> int) \<Rightarrow> (string \<rightharpoonup> cell) \<Rightarrow> error + norm_row"
where
  "convert_row env width height id_map r =
     (case coordinate env r ''xmin'' width of
        Inl e \<Rightarrow> Inl e
      | Inr x0 \<Rightarrow>
     (case coordinate env r ''xmax'' width of
        Inl e \<Rightarrow> Inl e
      | Inr x1 \<Rightarrow>
     (case coordinate env r ''ymin'' height of
        Inl e \<Rightarrow> Inl e
      | Inr y0 \<Rightarrow>
     (case coordinate env r ''ymax'' height of
        Inl e \<Rightarrow> Inl e
      | Inr y1 \<Rightarrow>
     (case class_of id_map r of
        Inl e \<Rightarrow> Inl e
      | Inr (c, i) \<Rightarrow>
          Inr \<lparr>nxmin = x0, nxmax = x1, nymin = y0, nymax = y1, ntext = c, nlabel = i\<rparr>)))))"

text \<open>
  The builtins \<^verbatim>\<open>max\<close> and \<^verbatim>\<open>min\<close> of a list: ValueError for the empty list;
  otherwise the first element, replaced by each later one that compares greater
  (smaller) than the current one. A NaN is therefore kept when it comes first and
  skipped anywhere else.
\<close>

definition py_max :: "pyfloat list \<Rightarrow> error + pyfloat" where
  "py_max xs =
     (case xs of
        [] \<Rightarrow> Inl ValueError
      | x # rest \<Rightarrow> Inr (foldl (\<lambda>m y. if float_lt m y then y else m) x rest))"

definition py_min :: "pyfloat list \<Rightarrow> error + pyfloat" where
  "py_min xs =
     (case xs of
        [] \<Rightarrow> Inl ValueError
      | x # rest \<Rightarrow> Inr (foldl (\<lambda>m y. if float_lt y m then y else m) x rest))"

text \<open>
  Lines 60-65: the two tests that enter the debugger, then the two assertions.
  The result is the exception raised, \<open>None\<close> when the four statements pass.
\<close>

definition validate :: "'b image_env \<Rightarrow> pyfloat list \<Rightarrow> error option" where
  "validate env cs =
     (case py_max cs of
        Inl e \<Rightarrow> Some e
      | Inr mx \<Rightarrow>
     (case (if float_lt (Fin double_1_1) mx then pdb_session env 61 else None) of
        Some e \<Rightarrow> Some e
      | None \<Rightarrow>
     (case py_min cs of
        Inl e \<Rightarrow> Some e
      | Inr mn \<Rightarrow>
     (case (if float_lt mn (Fin 0) then pdb_session env 63 else None) of
        Some e \<Rightarrow> Some e
      | None \<Rightarrow>
          if \<not> float_le mx (Fin double_1_1) then Some AssertionError
          else if \<not> float_le (Fin 0) mn then Some AssertionError
          else None))))"

text \<open>
  The function: the image is opened first, the file name is encoded (a file name
  that is not a string has no \<^verbatim>\<open>encode\<close>), the rows are converted in order, the
  coordinates are validated and the example is built.
\<close>

definition create_tf_example ::
  "'b image_env \<Rightarrow> image_group \<Rightarrow> (string \<rightharpoonup> int) \<Rightarrow> error + 'b tf_example"
where
  "create_tf_example env grp id_map =
     (case open_image env (group_filename grp) of
        Inl e \<Rightarrow> Inl e
      | Inr (width, height, encoded_jpg) \<Rightarrow>
     (case group_filename grp of
        Num x \<Rightarrow> Inl AttributeError
      | Str filename \<Rightarrow>
     (case traverse (convert_row env width height id_map) (group_object grp) of
        Inl e \<Rightarrow> Inl e
      | Inr converted \<Rightarrow>
          (let xmins = map nxmin converted;
               xmaxs = map nxmax converted;
               ymins = map nymin converted;
               ymaxs = map nymax converted
           in case validate env (xmins @ xmaxs @ ymins @ ymaxs) of
                Some e \<Rightarrow> Inl e
              | None \<Rightarrow>
                  Inr \<lparr>image_height = height, image_width = width,
                       image_filename = filename, image_encoded = encoded_jpg,
                       bbox_xmin = xmins, bbox_xmax = xmaxs,
                       bbox_ymin = ymins, bbox_ymax = ymaxs,
                       class_text = map ntext converted,
                       class_label = map nlabel converted\<rparr>))))"

text \<open>
  In the words of the specification: the normalized coordinates of a row are its
  cells \<^verbatim>\<open>xmin\<close> and \<^verbatim>\<open>xmax\<close> divided by the width and \<^verbatim>\<open>ymin\<close> and \<^verbatim>\<open>ymax\<close> divided
  by the height of the image (none when a cell is missing or is not a number, or a
  division raises); a coordinate is in range when it is a number of \<open>[0.0, 1.1]\<close>;
  the class of a row is known when it is a string of the label map.
\<close>

definition normalized ::
  "'b image_env \<Rightarrow> nat \<Rightarrow> nat \<Rightarrow> (string \<rightharpoonup> cell) \<Rightarrow> pyfloat list option"
where
  "normalized env w h r =
     (case (r ''xmin'', r ''xmax'', r ''ymin'', r ''ymax'') of
        (Some (Num x0), Some (Num x1), Some (Num y0), Some (Num y1)) \<Rightarrow>
          (case (truediv env x0 w, truediv env x1 w, truediv env y0 h, truediv env y1 h) of
             (Inr q0, Inr q1, Inr q2, Inr q3) \<Rightarrow> Some [q0, q1, q2, q3]
           | _ \<Rightarrow> None)
      | _ \<Rightarrow> None)"

definition in_range :: "pyfloat \<Rightarrow> bool" where
  "in_range q = (case q of Fin v \<Rightarrow> 0 \<le> v \<and> v \<le> double_1_1 | _ \<Rightarrow> False)"

definition known_class :: "(string \<rightharpoonup> int) \<Rightarrow> (string \<rightharpoonup> cell) \<Rightarrow> bool" where
  "known_class id_map r = (case r ''class'' of Some (Str c) \<Rightarrow> c \<in> dom id_map | _ \<Rightarrow> False)"


section \<open>Reading a run\<close>

text \<open>The state a run ends in, the indices of the checkpoints it wrote (in the order
  of writing), the moves it made, and the rows the coordinator appends for one video.\<close>

fun outcome_state :: "outcome \<Rightarrow> state" where
  "outcome_state (Finished st) = st"
| "outcome_state (Aborted e st) = st"

fun tmp_indices :: "event list \<Rightarrow> int list" where
  "tmp_indices [] = []"
| "tmp_indices (WriteTmp k t # es) = k # tmp_indices es"
| "tmp_indices (WriteFinal t # es) = tmp_indices es"
| "tmp_indices (Move f d # es) = tmp_indices es"

fun moves :: "event list \<Rightarrow> (string \<times> string) list" where
  "moves [] = []"
| "moves (Move f d # es) = (f, d) # moves es"
| "moves (WriteTmp k t # es) = moves es"
| "moves (WriteFinal t # es) = moves es"

definition rows_of_video ::
  "'f env \<Rightarrow> string \<Rightarrow> (string \<Rightarrow> error + subrow list) \<Rightarrow> string \<Rightarrow> row list"
where
  "rows_of_video env model_name worker video =
     (case worker video of
        Inl e \<Rightarrow> []
      | Inr r \<Rightarrow> (case tag_rows env model_name video r of Inl e \<Rightarrow> [] | Inr df \<Rightarrow> df))"

text \<open>The first element of every bucket of a list, skipping the buckets already
  seen: what the fast mode is meant to keep.\<close>

fun first_per_key :: "('a \<Rightarrow> 'k) \<Rightarrow> 'k set \<Rightarrow> 'a list \<Rightarrow> 'a list" where
  "first_per_key key seen [] = []"
| "first_per_key key seen (x # xs) =
     (if key x \<in> seen then first_per_key key seen xs
      else x # first_per_key key (insert (key x) seen) xs)"

text \<open>
  The bucket of a file in the words of the specification: the camera is the second
  dot-separated field of the stem, the date and the hour are those of the timestamp
  that pandas reads from the first field. A file has no bucket when its stem has a
  single field or its first field is not a timestamp.
\<close>

definition bucket :: "'f env \<Rightarrow> string \<Rightarrow> (string \<times> string \<times> string) option" where
  "bucket env f =
     (case split_on CHR ''.'' (stem f) of
        ts # cam_name # rest \<Rightarrow>
          (case to_datetime env ts of
             Inr (d, h, m) \<Rightarrow> Some (cam_name, d, h)
           | Inl e \<Rightarrow> None)
      | _ \<Rightarrow> None)"

text \<open>
  What pandas guarantees of the strings \<^verbatim>\<open>str(ts.date())\<close> and \<^verbatim>\<open>str(ts.hour)\<close> of a
  timestamp: the date is the ten characters \<^verbatim>\<open>YYYY-MM-DD\<close> (the years of a pandas
  timestamp have four digits) and the hour is a decimal number, so it has no colon.
\<close>

definition pandas_timestamps :: "'f env \<Rightarrow> bool" where
  "pandas_timestamps env =
     (\<forall>ts d h m. to_datetime env ts = Inr (d, h, m) \<longrightarrow> length d = 10 \<and> CHR '':'' \<notin> set h)"

section \<open>A small environment for the examples\<close>

text \<open>
  Three videos of camera \<open>camA\<close> and one of \<open>camB\<close>, with two, one, no and one
  decodable frames; the first two fall into the same hour. The detection model
  reports one box per frame, the timestamps \<open>t1\<close> to \<open>t5\<close> stand for what pandas
  would parse (\<open>t5\<close> is the hour of \<open>t1\<close> on the next day, of a video without
  frames), the pickle of the second video is already on disk and every move
  succeeds.
\<close>

definition demo_env :: "nat env" where
  "demo_env =
     \<lparr>decode = (\<lambda>v. if v = ''in/t1.camA.mp4'' then [0, 1]
                     else if v = ''in/t2.camA.mp4'' then [2]
                     else if v = ''in/t4.camB.mp4'' then [3]
                     else []),
      frame_shape_of = (\<lambda>f. [480, 640, 3]),
      infer_torch = (\<lambda>m f. [1 / 10, 2 / 10, 3 / 10, 4 / 10, 5 / 10, 6 / 10, 7 / 10]),
      infer_tf = (\<lambda>m f. \<lparr>detection_boxes = [[1 / 10, 2 / 10, 1 / 2, 3 / 5]],
                           detection_scores = [9 / 10],
                           detection_classes = [1]\<rparr>),
      argpartition = (\<lambda>a k. if k < length a then Inr (rev [0..<length a]) else Inl ValueError),
      fmt2 = (\<lambda>x. str_int \<lfloor>x * 100\<rfloor>),
      fmt3 = (\<lambda>x. str_int \<lfloor>x * 1000\<rfloor>),
      to_datetime = (\<lambda>ts. if ts = ''t1'' then Inr (''2021-03-04'', ''10'', ''5'')
                          else if ts = ''t2'' then Inr (''2021-03-04'', ''10'', ''30'')
                          else if ts = ''t3'' then Inr (''2021-03-04'', ''11'', ''0'')
                          else if ts = ''t4'' then Inr (''2021-03-04'', ''10'', ''7'')
                          else if ts = ''t5'' then Inr (''2021-03-05'', ''10'', ''9'')
                          else Inl ValueError),
      models = [''edge''],
      isfile = (\<lambda>p. p = ''out/t2.camA.pkl''),
      shutil_move = (\<lambda>f d. None)\<rparr>"

definition demo_dataset :: "string list" where
  "demo_dataset = [''in/t1.camA.mp4'', ''in/t2.camA.mp4'', ''in/t3.camA.mp4'', ''in/t4.camB.mp4'']"

text \<open>
  An image of 100 by 100 pixels named \<^verbatim>\<open>a.jpg\<close>. The quotients by 100 of 10, 105,
  110 and 120 are the doubles Python computes; the other quotients are exact,
  which is what Python computes for 0, 50 and 100 by 100. A zero divisor raises,
  as for the numbers of Python. The debugger finds its input closed.
\<close>

definition demo_truediv :: "pyfloat \<Rightarrow> nat \<Rightarrow> error + pyfloat" where
  "demo_truediv x n =
     (if n = 0 then Inl ZeroDivisionError
      else case x of
             Fin v \<Rightarrow>
               if v = 10 \<and> n = 100 then Inr (Fin (3602879701896397 / 36028797018963968))
               else if v = 105 \<and> n = 100 then Inr (Fin (4728779608739021 / 4503599627370496))
               else if v = 110 \<and> n = 100 then Inr (Fin (2476979795053773 / 2251799813685248))
               else if v = 120 \<and> n = 100 then Inr (Fin (5404319552844595 / 4503599627370496))
               else Inr (Fin (v / real n))
           | other \<Rightarrow> Inr other)"

definition demo_image_env :: "nat image_env" where
  "demo_image_env =
     \<lparr>open_image = (\<lambda>f. if f = Str ''a.jpg'' then Inr (100, 100, 0) else Inl OSError),
      truediv = demo_truediv,
      pdb_session = (\<lambda>line. Some BdbQuit)\<rparr>"

definition demo_row :: "pyfloat \<Rightarrow> pyfloat \<Rightarrow> string \<Rightarrow> (string \<rightharpoonup> cell)" where
  "demo_row x0 x1 c =
     [''xmin'' \<mapsto> Num x0, ''xmax'' \<mapsto> Num x1, ''ymin'' \<mapsto> Num (Fin 0),
      ''ymax'' \<mapsto> Num (Fin 50), ''class'' \<mapsto> Str c]"

section \<open>Chunking and the number of waves\<close>

lemma chunks_from_unfold:
  "0 < n \<Longrightarrow> xs \<noteq> [] \<Longrightarrow> chunks_from n xs = take n xs # chunks_from n (drop n xs)"
  by (subst chunks_from.simps) simp

lemma chunks_from_Nil: "chunks_from n [] = []"
  by (subst chunks_from.simps) simp

lemma chunks_from_concat: "0 < n \<Longrightarrow> concat (chunks_from n xs) = xs"
proof (induction n xs rule: chunks_from.induct)
  case (1 n xs)
  show ?case
  proof (cases "xs = []")
    case True
    then show ?thesis by (simp add: chunks_from_Nil)
  next
    case False
    have unf: "chunks_from n xs = take n xs # chunks_from n (drop n xs)"
      using 1(2) False by (rule chunks_from_unfold)
    have "concat (chunks_from n (drop n xs)) = drop n xs"
      using 1 False by simp
    then show ?thesis unfolding unf by simp
  qed
qed

lemma ceil_step: "0 < n \<Longrightarrow> n < (l::nat) \<Longrightarrow> (l + n - 1) div n = Suc ((l - n + n - 1) div n)"
proof -
  assume n: "0 < n" and l: "n < l"
  define a where "a = l - 1"
  have e1: "l + n - 1 = a + n" using l n by (simp add: a_def)
  have e2: "l - n + n - 1 = a" using l n by (simp add: a_def)
  have "(a + n) div n = Suc (a div n)" using n div_add_self2[of n a] by simp
  then show ?thesis by (simp only: e1 e2)
qed

lemma ceil_one: "0 < n \<Longrightarrow> 0 < l \<Longrightarrow> l \<le> n \<Longrightarrow> (l + n - 1) div n = (1::nat)"
proof -
  assume n: "0 < n" and l: "0 < l" "l \<le> n"
  have a: "n * 1 \<le> l + n - 1" using l by arith
  have b: "l + n - 1 < n * Suc 1" using l n by arith
  show ?thesis using a b by (rule div_nat_eqI)
qed

lemma chunks_from_length: "0 < n \<Longrightarrow> length (chunks_from n xs) = (length xs + n - 1) div n"
proof (induction n xs rule: chunks_from.induct)
  case (1 n xs)
  show ?case
  proof (cases "xs = []")
    case True
    then show ?thesis using 1(2) by (simp add: chunks_from_Nil)
  next
    case False
    then have len: "0 < length xs" by simp
    have unf0: "chunks_from n xs = take n xs # chunks_from n (drop n xs)"
      using 1(2) False by (rule chunks_from_unfold)
    have ih: "length (chunks_from n (drop n xs)) = (length xs - n + n - 1) div n"
      using 1 False by simp
    have unf: "length (chunks_from n xs) = Suc ((length xs - n + n - 1) div n)"
      unfolding unf0 using ih by simp
    show ?thesis
    proof (cases "length xs \<le> n")
      case True
      have "(length xs + n - 1) div n = 1"
        using 1(2) len True by (rule ceil_one)
      moreover have "(length xs - n + n - 1) div n = 0"
        using True 1(2) by simp
      ultimately show ?thesis unfolding unf by simp
    next
      case gt: False
      then have "n < length xs" by simp
      with 1(2) have "(length xs + n - 1) div n = Suc ((length xs - n + n - 1) div n)"
        by (rule ceil_step)
      then show ?thesis unfolding unf by simp
    qed
  qed
qed

lemma chunks_from_nth:
  "0 < n \<Longrightarrow> i < length (chunks_from n xs) \<Longrightarrow> chunks_from n xs ! i = take n (drop (i * n) xs)"
proof (induction n xs arbitrary: i rule: chunks_from.induct)
  case (1 n xs)
  from 1(3) have ne: "xs \<noteq> []" by (auto simp: chunks_from_Nil)
  have unf: "chunks_from n xs = take n xs # chunks_from n (drop n xs)"
    using 1(2) ne by (rule chunks_from_unfold)
  show ?case
  proof (cases i)
    case 0
    then show ?thesis unfolding unf by simp
  next
    case (Suc j)
    then have "j < length (chunks_from n (drop n xs))" using 1(3) unfolding unf by simp
    then have "chunks_from n (drop n xs) ! j = take n (drop (j * n) (drop n xs))"
      using 1(1)[of j] ne 1(2) by simp
    then show ?thesis unfolding unf Suc by (simp add: add.commute)
  qed
qed

lemma chunks_from_nonempty: "c \<in> set (chunks_from n xs) \<Longrightarrow> c \<noteq> [] \<and> length c \<le> n"
proof (induction n xs rule: chunks_from.induct)
  case (1 n xs)
  show ?case
  proof (cases "n = 0 \<or> xs = []")
    case True
    then have "chunks_from n xs = []" by (subst chunks_from.simps) simp
    then show ?thesis using 1(2) by simp
  next
    case False
    then have unf: "chunks_from n xs = take n xs # chunks_from n (drop n xs)"
      by (simp add: chunks_from_unfold)
    have "c = take n xs \<or> c \<in> set (chunks_from n (drop n xs))"
      using 1(2) unfolding unf by simp
    then show ?thesis using 1(1) False by auto
  qed
qed

lemma ceil_div: "0 < n \<Longrightarrow> int ((l + n - 1) div n) = \<lceil>real l / real n\<rceil>"
proof -
  assume n: "0 < n"
  define q where "q = (l + n - 1) div n"
  have up: "l \<le> q * n"
  proof -
    have "l + n - 1 < n + q * n"
      unfolding q_def using n by (rule dividend_less_div_times)
    then show ?thesis using n by arith
  qed
  have lo: "q * n < l + n"
  proof -
    have "q * n \<le> l + n - 1" unfolding q_def by simp
    then show ?thesis using n by arith
  qed
  have "real l / real n \<le> real q"
    using up n by (simp add: divide_le_eq flip: of_nat_mult)
  moreover have "real q - 1 < real l / real n"
  proof -
    have "real q * real n < real l + real n" using lo by (simp flip: of_nat_mult of_nat_add)
    then have "(real q - 1) * real n < real l" by (simp add: algebra_simps)
    then show ?thesis using n by (simp add: less_divide_eq)
  qed
  ultimately have "\<lceil>real l / real n\<rceil> = int q"
    by (intro ceiling_unique) simp_all
  then show ?thesis by (simp add: q_def)
qed

lemma clamp_workers_pos: "xs \<noteq> [] \<Longrightarrow> 1 \<le> w \<Longrightarrow> 1 \<le> clamp_workers xs w"
  by (cases xs) (simp_all add: clamp_workers_def)

lemma waves_count:
  assumes "videos \<noteq> []" and "1 \<le> w"
  shows "\<lceil>real (length videos) / real (nat (2 * clamp_workers videos w))\<rceil>
         = \<lceil>real (length videos) / real_of_int (2 * w)\<rceil>"
proof (cases "int (length videos) < w * 2")
  case False
  then have "clamp_workers videos w = w" by (simp add: clamp_workers_def)
  moreover have "real (nat (2 * w)) = real_of_int (2 * w)" using assms(2) by simp
  ultimately show ?thesis by simp
next
  case True
  then have k: "clamp_workers videos w = int (length videos)" by (simp add: clamp_workers_def)
  have len: "0 < length videos" using assms(1) by simp
  have "\<lceil>real (length videos) / real (nat (2 * int (length videos)))\<rceil> = 1"
    using len by (intro ceiling_unique) (simp_all add: nat_mult_distrib)
  moreover have "\<lceil>real (length videos) / real_of_int (2 * w)\<rceil> = 1"
  proof (rule ceiling_unique)
    have "real (length videos) < real_of_int (2 * w)" using True by (simp add: mult.commute)
    then show "real (length videos) / real_of_int (2 * w) \<le> real_of_int 1"
      using assms(2) by (simp add: divide_le_eq)
    show "real_of_int 1 - 1 < real (length videos) / real_of_int (2 * w)"
      using len assms(2) by simp
  qed
  ultimately show ?thesis by (simp add: k)
qed

text \<open>
  Claim C3. For a non-empty list of videos and a configured worker count \<open>w \<ge> 1\<close>,
  the loop of line 231 iterates over consecutive slices of the list of size \<open>2 * w'\<close>,
  where \<open>w'\<close> is \<open>w\<close> lowered to the number of tasks when there are fewer than \<open>2 * w\<close>
  of them: the slices concatenate to the list, slice \<open>i\<close> is
  \<^verbatim>\<open>videos[i*2*w' : i*2*w' + 2*w']\<close>, none is empty, and their number is
  \<open>ceil(len(videos) / (2 * w))\<close>.
\<close>

theorem waves_of_partition:
  assumes "videos \<noteq> []" and "1 \<le> w"
  shows "\<exists>cs. waves_of videos w = Inr cs
           \<and> concat cs = videos
           \<and> int (length cs) = \<lceil>real (length videos) / real_of_int (2 * w)\<rceil>
           \<and> (\<forall>i<length cs. cs ! i = take (nat (2 * clamp_workers videos w))
                                     (drop (i * nat (2 * clamp_workers videos w)) videos))
           \<and> (\<forall>c\<in>set cs. c \<noteq> [] \<and> int (length c) \<le> 2 * clamp_workers videos w)
           \<and> clamp_workers videos w
               = (if int (length videos) < 2 * w then int (length videos) else w)"
proof -
  define k where "k = clamp_workers videos w"
  define n where "n = nat (2 * k)"
  have k1: "1 \<le> k" unfolding k_def using assms by (rule clamp_workers_pos)
  then have n: "0 < n" by (simp add: n_def)
  have w: "waves_of videos w = Inr (chunks_from n videos)"
    using k1 by (simp add: waves_of_def chunks_def k_def[symmetric] n_def mult.commute)
  have "int (length (chunks_from n videos)) = \<lceil>real (length videos) / real n\<rceil>"
    using n ceil_div[of n "length videos"] by (simp only: chunks_from_length)
  also have "\<dots> = \<lceil>real (length videos) / real_of_int (2 * w)\<rceil>"
    unfolding n_def k_def using assms by (rule waves_count)
  finally have cnt: "int (length (chunks_from n videos))
      = \<lceil>real (length videos) / real_of_int (2 * w)\<rceil>" .
  have nth: "\<forall>i<length (chunks_from n videos).
      chunks_from n videos ! i = take n (drop (i * n) videos)"
    using n by (simp add: chunks_from_nth)
  have ne: "\<forall>c\<in>set (chunks_from n videos). c \<noteq> [] \<and> int (length c) \<le> 2 * k"
  proof
    fix c assume "c \<in> set (chunks_from n videos)"
    then have "c \<noteq> [] \<and> length c \<le> n" by (rule chunks_from_nonempty)
    then show "c \<noteq> [] \<and> int (length c) \<le> 2 * k" using k1 by (simp add: n_def) linarith
  qed
  have cl: "k = (if int (length videos) < 2 * w then int (length videos) else w)"
    by (simp add: k_def clamp_workers_def mult.commute)
  show ?thesis
    using w chunks_from_concat[OF n, of videos] cnt nth ne cl
    unfolding n_def k_def by blast
qed

theorem waves_of_partition_witness:
  "[''a'', ''b'', ''c''] \<noteq> [] \<and> (1::int) \<le> 1
   \<and> waves_of [''a'', ''b'', ''c''] 1 = Inr [[''a'', ''b''], [''c'']]
   \<and> \<lceil>real (length [''a'', ''b'', ''c'']) / real_of_int (2 * 1)\<rceil> = 2"
proof -
  have h1: "[''a'', ''b'', ''c''] \<noteq> []" by simp
  have h2: "(1::int) \<le> 1" by simp
  from waves_of_partition[OF h1 h2] obtain cs where
    cs: "waves_of [''a'', ''b'', ''c''] 1 = Inr cs" and
    n: "int (length cs) = \<lceil>real (length [''a'', ''b'', ''c'']) / real_of_int (2 * 1)\<rceil>" and
    nth: "\<forall>i<length cs. cs ! i = take (nat (2 * clamp_workers [''a'', ''b'', ''c''] 1))
            (drop (i * nat (2 * clamp_workers [''a'', ''b'', ''c''] 1)) [''a'', ''b'', ''c''])"
    by blast
  have c: "\<lceil>real (length [''a'', ''b'', ''c'']) / real_of_int (2 * 1)\<rceil> = 2"
    by (simp add: ceiling_eq_iff)
  then have l: "length cs = 2" using n by simp
  have k: "clamp_workers [''a'', ''b'', ''c''] 1 = 1" by (simp add: clamp_workers_def)
  have "cs ! 0 = [''a'', ''b'']" "cs ! 1 = [''c'']" using nth l by (simp_all add: k)
  then have "cs = [[''a'', ''b''], [''c'']]" using l
    by (metis (no_types, lifting) One_nat_def Suc_1 length_0_conv length_Suc_conv nth_Cons_0 nth_Cons_Suc)
  then show ?thesis using cs c by simp
qed

section \<open>Empty list of videos\<close>

lemma waves_of_empty: "0 \<le> w \<Longrightarrow> waves_of ([]::'a list) w = Inl ValueError"
  by (simp add: waves_of_def chunks_def clamp_workers_def)

lemma clamp_workers_empty: "0 \<le> w \<Longrightarrow> clamp_workers ([]::'a list) w = 0"
  by (simp add: clamp_workers_def)

text \<open>
  Claim C10, amended. When no video is left to process and the configured worker
  count is not negative, \<^verbatim>\<open>process_dataset\<close> raises before anything is written:
  the worker count is 0 after lines 222-223, the generator is asked for chunks of
  size 0, and \<^verbatim>\<open>range\<close> raises ValueError (unless reading the indices of the
  temporary files on disk has already raised). The state is still the initial one,
  so no checkpoint and no final CSV exist.
\<close>

theorem empty_run_raises:
  assumes "videos_to_process env output per_video_results process_all dataset = Inr []"
    and "0 \<le> max_workers"
  shows "(\<exists>e. process_dataset env tmp_on_disk dataset model_name framework output
               per_video_results process_all move_when_done max_workers
             = Aborted e init_state)
         \<and> (\<forall>ids. traverse (\<lambda>x. x) tmp_on_disk = Inr ids \<longrightarrow>
               process_dataset env tmp_on_disk dataset model_name framework output
                 per_video_results process_all move_when_done max_workers
               = Aborted ValueError init_state)
         \<and> effects init_state = []
         \<and> clamp_workers ([]::string list) max_workers = 0
         \<and> chunks ([]::string list) (clamp_workers ([]::string list) max_workers * 2)
             = Inl ValueError"
proof -
  have w: "waves_of ([]::string list) max_workers = Inl ValueError"
    using assms(2) by (rule waves_of_empty)
  have c: "clamp_workers ([]::string list) max_workers = 0"
    using assms(2) by (rule clamp_workers_empty)
  have a: "\<exists>e. process_dataset env tmp_on_disk dataset model_name framework output
               per_video_results process_all move_when_done max_workers
             = Aborted e init_state"
    by (cases "traverse (\<lambda>x. x) tmp_on_disk") (simp_all add: process_dataset_def assms(1) w)
  have b: "\<forall>ids. traverse (\<lambda>x. x) tmp_on_disk = Inr ids \<longrightarrow>
               process_dataset env tmp_on_disk dataset model_name framework output
                 per_video_results process_all move_when_done max_workers
               = Aborted ValueError init_state"
    by (simp add: process_dataset_def assms(1) w)
  show ?thesis using a b c by (simp add: init_state_def chunks_def)
qed

theorem empty_run_raises_witness:
  "videos_to_process demo_env ''out'' True True [''in/t2.camA.mp4''] = Inr []
   \<and> (0::int) \<le> 1
   \<and> process_dataset demo_env [Inr 0, Inr 1] [''in/t2.camA.mp4''] ''edge'' ''tf'' ''out''
        True True None 1 = Aborted ValueError init_state"
proof -
  have h1: "videos_to_process demo_env ''out'' True True [''in/t2.camA.mp4''] = Inr []"
    by (simp add: videos_to_process_def enumerate_videos_def skip_processed_def demo_env_def
        pkl_path_def stem_def path_name_def)
  have h2: "(0::int) \<le> 1" by simp
  have "traverse (\<lambda>x. x) [Inr 0, Inr (1::int)] = Inr [0, 1]" by simp
  then show ?thesis
    using empty_run_raises[OF h1 h2, of "[Inr 0, Inr 1]" "''edge''" "''tf''" None] h1 by simp
qed

text \<open>
  With a negative worker count nothing is clamped, \<^verbatim>\<open>range(0, 0, -2)\<close> is empty,
  the loop body never runs and line 268 writes an empty final CSV.
\<close>

theorem negative_workers_counterexample:
  "videos_to_process demo_env ''out'' False True [] = Inr []
   \<and> process_dataset demo_env [] [] ''edge'' ''tf'' ''out'' False True None (- 1)
       = Finished \<lparr>detections = [], videos_processed = Map.empty, effects = [WriteFinal []]\<rparr>"
  by (simp add: process_dataset_def videos_to_process_def enumerate_videos_def waves_of_def
      chunks_def clamp_workers_def previous_tmp_files_def init_state_def)

section \<open>The loop over the results of a wave\<close>

lemma tmp_indices_append: "tmp_indices (es @ fs) = tmp_indices es @ tmp_indices fs"
  by (induction es rule: tmp_indices.induct) simp_all

lemma moves_append: "moves (es @ fs) = moves es @ moves fs"
  by (induction es rule: moves.induct) simp_all

lemma collect_results_counters:
  "videos_processed (outcome_state (collect_results env m worker idx chunk st))
     = videos_processed st"
  by (induction chunk arbitrary: st) (simp_all split: sum.splits)

lemma collect_results_moves:
  "moves (effects (outcome_state (collect_results env m worker idx chunk st)))
     = moves (effects st)"
  by (induction chunk arbitrary: st) (simp_all add: moves_append split: sum.splits)

lemma collect_results_indices:
  "\<exists>k. tmp_indices (effects (outcome_state (collect_results env m worker idx chunk st)))
        = tmp_indices (effects st) @ replicate k idx"
proof (induction chunk arbitrary: st)
  case Nil
  have "tmp_indices (effects st) = tmp_indices (effects st) @ replicate 0 idx" by simp
  then show ?case by (simp del: replicate.simps) 
next
  case (Cons v rest)
  show ?case
  proof (cases "worker v")
    case (Inl e)
    then show ?thesis by (simp add: exI[of _ 0])
  next
    case (Inr r)
    show ?thesis
    proof (cases "length r = 0")
      case True
      then show ?thesis using Inr Cons by simp
    next
      case False
      show ?thesis
      proof (cases "tag_rows env m v r")
        case (Inl e)
        then show ?thesis using Inr False by (simp add: exI[of _ 0])
      next
        case tag: (Inr df)
        define st1 where "st1 = st\<lparr>detections := detections st @ df,
            effects := effects st @ [WriteTmp idx (detections st @ df)]\<rparr>"
        obtain k where "tmp_indices (effects (outcome_state (collect_results env m worker idx rest st1)))
            = tmp_indices (effects st1) @ replicate k idx"
          using Cons by blast
        then have "tmp_indices (effects (outcome_state (collect_results env m worker idx (v # rest) st)))
            = tmp_indices (effects st) @ replicate (Suc k) idx"
          using Inr False tag by (simp add: st1_def tmp_indices_append)
        then show ?thesis by blast
      qed
    qed
  qed
qed

lemma collect_results_rows:
  "collect_results env m worker idx chunk st = Finished st'
     \<Longrightarrow> detections st' = detections st @ concat (map (rows_of_video env m worker) chunk)"
proof (induction chunk arbitrary: st)
  case Nil
  then show ?case by simp
next
  case (Cons v rest)
  show ?case
  proof (cases "worker v")
    case (Inl e)
    then show ?thesis using Cons.prems by simp
  next
    case (Inr r)
    show ?thesis
    proof (cases "length r = 0")
      case True
      then have "rows_of_video env m worker v = []"
        using Inr by (simp add: rows_of_video_def tag_rows_def split: sum.splits prod.splits)
      then show ?thesis using Cons True Inr by simp
    next
      case False
      show ?thesis
      proof (cases "tag_rows env m v r")
        case (Inl e)
        then show ?thesis using Inr False Cons.prems by simp
      next
        case tag: (Inr df)
        have rv: "rows_of_video env m worker v = df"
          using Inr tag by (simp add: rows_of_video_def)
        have "collect_results env m worker idx rest
                (st\<lparr>detections := detections st @ df,
                    effects := effects st @ [WriteTmp idx (detections st @ df)]\<rparr>) = Finished st'"
          using Cons.prems Inr False tag by simp
        from Cons.IH[OF this] show ?thesis by (simp add: rv)
      qed
    qed
  qed
qed

lemma collect_results_grows:
  "\<exists>new. detections (outcome_state (collect_results env m worker idx chunk st))
            = detections st @ new"
proof (induction chunk arbitrary: st)
  case Nil
  then show ?case by simp
next
  case (Cons v rest)
  show ?case
  proof (cases "worker v")
    case (Inl e)
    then show ?thesis by simp
  next
    case (Inr r)
    show ?thesis
    proof (cases "length r = 0")
      case True
      then show ?thesis using Inr Cons by simp
    next
      case False
      show ?thesis
      proof (cases "tag_rows env m v r")
        case (Inl e)
        then show ?thesis using Inr False by simp
      next
        case tag: (Inr df)
        define st1 where "st1 = st\<lparr>detections := detections st @ df,
            effects := effects st @ [WriteTmp idx (detections st @ df)]\<rparr>"
        obtain new where "detections (outcome_state (collect_results env m worker idx rest st1))
            = detections st1 @ new"
          using Cons by blast
        then have "detections (outcome_state (collect_results env m worker idx (v # rest) st))
            = detections st @ (df @ new)"
          using Inr False tag by (simp add: st1_def)
        then show ?thesis by blast
      qed
    qed
  qed
qed

section \<open>Completion counting\<close>

lemma waves_of_nonempty: "waves_of videos w = Inr cs \<Longrightarrow> chunk \<in> set cs \<Longrightarrow> chunk \<noteq> []"
  by (auto simp: waves_of_def chunks_def split: if_splits dest: chunks_from_nonempty)

lemma collect_results_Finished:
  "collect_results env m worker idx chunk st = Finished mid
     \<Longrightarrow> videos_processed mid = videos_processed st \<and> moves (effects mid) = moves (effects st)"
  using collect_results_counters[of env m worker idx chunk st]
    collect_results_moves[of env m worker idx chunk st] by simp

lemma track_completion_state:
  "tmp_indices (effects (outcome_state (track_completion env n mv filename st)))
     = tmp_indices (effects st)
   \<and> detections (outcome_state (track_completion env n mv filename st)) = detections st"
  by (simp add: track_completion_def Let_def tmp_indices_append split: option.splits)

lemma track_completion_other:
  "track_completion env n mv filename st = Finished st' \<Longrightarrow> v \<noteq> filename
     \<Longrightarrow> videos_processed st' v = videos_processed st v"
  by (auto simp: track_completion_def Let_def split: option.splits if_splits)

lemma track_completion_done:
  "track_completion env n (Some target) filename st = Finished st'
     \<Longrightarrow> counter (videos_processed st) filename + 1 = int n
     \<Longrightarrow> videos_processed st' filename = None
         \<and> moves (effects st') = moves (effects st) @ [(filename, target)]"
  by (auto simp: track_completion_def Let_def moves_append split: option.splits)

lemma track_completion_pending:
  "track_completion env n mv filename st = Finished st'
     \<Longrightarrow> mv = None \<or> counter (videos_processed st) filename + 1 \<noteq> int n
     \<Longrightarrow> videos_processed st' filename = Some (counter (videos_processed st) filename + 1)
         \<and> moves (effects st') = moves (effects st)"
  by (auto simp: track_completion_def Let_def split: option.splits if_splits)

lemma counter_old:
  "processed filename = None \<and> old = 0 \<or> processed filename = Some old
     \<Longrightarrow> counter processed filename = old"
  by (auto simp: counter_def)

text \<open>
  Claim C2. For a chunk of the run whose results were all collected and whose move
  (if any) succeeded, the only entry of \<^verbatim>\<open>videos_processed\<close> that changes is the one
  of the last video of the chunk. With \<open>old\<close> the count it held before (0 when
  it had no entry): when a relocation target is given and \<open>old + 1\<close> is the
  number of configured models, that video is moved to the target and its entry is
  removed; otherwise the entry holds \<open>old + 1\<close> afterwards and nothing is moved.
\<close>

theorem completion_counting:
  assumes "waves_of videos w = Inr cs" and "chunk \<in> set cs"
    and "wave env m worker n_models move_when_done previous chunk_idx chunk st = Finished st'"
  shows "chunk \<noteq> []
         \<and> (\<forall>v. v \<noteq> last chunk \<longrightarrow> videos_processed st' v = videos_processed st v)
         \<and> (\<forall>old target.
               (videos_processed st (last chunk) = None \<and> old = 0
                  \<or> videos_processed st (last chunk) = Some old)
               \<and> move_when_done = Some target \<and> old + 1 = int n_models
              \<longrightarrow> videos_processed st' (last chunk) = None
                  \<and> moves (effects st') = moves (effects st) @ [(last chunk, target)])
         \<and> (\<forall>old.
               (videos_processed st (last chunk) = None \<and> old = 0
                  \<or> videos_processed st (last chunk) = Some old)
               \<and> (move_when_done = None \<or> old + 1 \<noteq> int n_models)
              \<longrightarrow> videos_processed st' (last chunk) = Some (old + 1)
                  \<and> moves (effects st') = moves (effects st))"
proof -
  obtain mid where mid: "collect_results env m worker (int chunk_idx + previous) chunk st = Finished mid"
    and tc: "track_completion env n_models move_when_done (last chunk) mid = Finished st'"
    using assms(3) by (auto simp: wave_def split: outcome.splits)
  have keep: "videos_processed mid = videos_processed st" "moves (effects mid) = moves (effects st)"
    using collect_results_Finished[OF mid] by simp_all
  have ne: "chunk \<noteq> []" using assms(1,2) by (rule waves_of_nonempty)
  have other: "\<forall>v. v \<noteq> last chunk \<longrightarrow> videos_processed st' v = videos_processed st v"
    using track_completion_other[OF tc] keep by simp
  have moved: "\<forall>old target.
               (videos_processed st (last chunk) = None \<and> old = 0
                  \<or> videos_processed st (last chunk) = Some old)
               \<and> move_when_done = Some target \<and> old + 1 = int n_models
              \<longrightarrow> videos_processed st' (last chunk) = None
                  \<and> moves (effects st') = moves (effects st) @ [(last chunk, target)]"
  proof (intro allI impI)
    fix old target
    assume a: "(videos_processed st (last chunk) = None \<and> old = 0
                  \<or> videos_processed st (last chunk) = Some old)
               \<and> move_when_done = Some target \<and> old + 1 = int n_models"
    then have c: "counter (videos_processed mid) (last chunk) = old"
      using counter_old[of "videos_processed st" "last chunk" old] keep by simp
    have "track_completion env n_models (Some target) (last chunk) mid = Finished st'"
      using tc a by simp
    from track_completion_done[OF this] c a keep
    show "videos_processed st' (last chunk) = None
                  \<and> moves (effects st') = moves (effects st) @ [(last chunk, target)]"
      by simp
  qed
  have pending: "\<forall>old.
               (videos_processed st (last chunk) = None \<and> old = 0
                  \<or> videos_processed st (last chunk) = Some old)
               \<and> (move_when_done = None \<or> old + 1 \<noteq> int n_models)
              \<longrightarrow> videos_processed st' (last chunk) = Some (old + 1)
                  \<and> moves (effects st') = moves (effects st)"
  proof (intro allI impI)
    fix old
    assume a: "(videos_processed st (last chunk) = None \<and> old = 0
                  \<or> videos_processed st (last chunk) = Some old)
               \<and> (move_when_done = None \<or> old + 1 \<noteq> int n_models)"
    then have c: "counter (videos_processed mid) (last chunk) = old"
      using counter_old[of "videos_processed st" "last chunk" old] keep by simp
    then have "move_when_done = None
        \<or> counter (videos_processed mid) (last chunk) + 1 \<noteq> int n_models"
      using a by simp
    from track_completion_pending[OF tc this] c keep
    show "videos_processed st' (last chunk) = Some (old + 1)
                  \<and> moves (effects st') = moves (effects st)"
      by simp
  qed
  show ?thesis by (intro conjI ne other moved pending)
qed

theorem completion_counting_witness:
  "waves_of demo_dataset 1
     = Inr [[''in/t1.camA.mp4'', ''in/t2.camA.mp4''], [''in/t3.camA.mp4'', ''in/t4.camB.mp4'']]
   \<and> [''in/t1.camA.mp4'', ''in/t2.camA.mp4'']
       \<in> set [[''in/t1.camA.mp4'', ''in/t2.camA.mp4''], [''in/t3.camA.mp4'', ''in/t4.camB.mp4'']]
   \<and> (\<exists>st'. wave demo_env ''edge'' (dataset_worker demo_env ''edge'' ''tf'' None) 3
              (Some ''done'') 0 0 [''in/t1.camA.mp4'', ''in/t2.camA.mp4'']
              (init_state\<lparr>videos_processed := [''in/t2.camA.mp4'' \<mapsto> 1]\<rparr>) = Finished st'
          \<and> videos_processed st' ''in/t2.camA.mp4'' = Some 2
          \<and> videos_processed st' ''in/t1.camA.mp4'' = None
          \<and> moves (effects st') = [])
   \<and> (\<exists>st'. wave demo_env ''edge'' (dataset_worker demo_env ''edge'' ''tf'' None) 2
              (Some ''done'') 0 0 [''in/t1.camA.mp4'', ''in/t2.camA.mp4'']
              (init_state\<lparr>videos_processed := [''in/t2.camA.mp4'' \<mapsto> 1]\<rparr>) = Finished st'
          \<and> videos_processed st' ''in/t2.camA.mp4'' = None
          \<and> moves (effects st') = [(''in/t2.camA.mp4'', ''done'')])"
proof -
  define st0 where "st0 = init_state\<lparr>videos_processed := [''in/t2.camA.mp4'' \<mapsto> 1]\<rparr>"
  define chunk where "chunk = [''in/t1.camA.mp4'', ''in/t2.camA.mp4'']"
  have h1: "waves_of demo_dataset 1
     = Inr [chunk, [''in/t3.camA.mp4'', ''in/t4.camB.mp4'']]"
    unfolding chunk_def by code_simp
  have h2: "chunk \<in> set [chunk, [''in/t3.camA.mp4'', ''in/t4.camB.mp4'']]"
    by simp
  have l: "last chunk = ''in/t2.camA.mp4''" by (simp add: chunk_def)
  have old: "videos_processed st0 (last chunk) = Some 1"
    "videos_processed st0 ''in/t1.camA.mp4'' = None" "moves (effects st0) = []"
    by (simp_all add: st0_def l init_state_def)
  have "case wave demo_env ''edge'' (dataset_worker demo_env ''edge'' ''tf'' None) 3
              (Some ''done'') 0 0 [''in/t1.camA.mp4'', ''in/t2.camA.mp4'']
              (init_state\<lparr>videos_processed := [''in/t2.camA.mp4'' \<mapsto> 1]\<rparr>) of
          Finished st \<Rightarrow> True | Aborted e st \<Rightarrow> False"
    by code_simp
  then obtain st3 where w3: "wave demo_env ''edge'' (dataset_worker demo_env ''edge'' ''tf'' None) 3
              (Some ''done'') 0 0 chunk st0 = Finished st3"
    unfolding st0_def chunk_def by (auto split: outcome.splits)
  have "case wave demo_env ''edge'' (dataset_worker demo_env ''edge'' ''tf'' None) 2
              (Some ''done'') 0 0 [''in/t1.camA.mp4'', ''in/t2.camA.mp4'']
              (init_state\<lparr>videos_processed := [''in/t2.camA.mp4'' \<mapsto> 1]\<rparr>) of
          Finished st \<Rightarrow> True | Aborted e st \<Rightarrow> False"
    by code_simp
  then obtain st2 where w2: "wave demo_env ''edge'' (dataset_worker demo_env ''edge'' ''tf'' None) 2
              (Some ''done'') 0 0 chunk st0 = Finished st2"
    unfolding st0_def chunk_def by (auto split: outcome.splits)
  note t3 = completion_counting[OF h1 h2 w3]
  note t2 = completion_counting[OF h1 h2 w2]
  have ne: "''in/t1.camA.mp4'' \<noteq> last chunk" by (simp add: l)
  have p3: "videos_processed st3 (last chunk) = Some (1 + 1) \<and> moves (effects st3) = moves (effects st0)"
    using t3[THEN conjunct2, THEN conjunct2, THEN conjunct2, rule_format, of 1] old(1) by simp
  have o3: "videos_processed st3 ''in/t1.camA.mp4'' = videos_processed st0 ''in/t1.camA.mp4''"
    using t3[THEN conjunct2, THEN conjunct1, rule_format, OF ne] .
  have p2: "videos_processed st2 (last chunk) = None
      \<and> moves (effects st2) = moves (effects st0) @ [(last chunk, ''done'')]"
    using t2[THEN conjunct2, THEN conjunct2, THEN conjunct1, rule_format, of 1 "''done''"] old(1)
    by simp
  have r3: "wave demo_env ''edge'' (dataset_worker demo_env ''edge'' ''tf'' None) 3
              (Some ''done'') 0 0 chunk st0 = Finished st3
          \<and> videos_processed st3 ''in/t2.camA.mp4'' = Some 2
          \<and> videos_processed st3 ''in/t1.camA.mp4'' = None
          \<and> moves (effects st3) = []"
    using w3 p3 o3 old by (simp add: l)
  have r2: "wave demo_env ''edge'' (dataset_worker demo_env ''edge'' ''tf'' None) 2
              (Some ''done'') 0 0 chunk st0 = Finished st2
          \<and> videos_processed st2 ''in/t2.camA.mp4'' = None
          \<and> moves (effects st2) = [(''in/t2.camA.mp4'', ''done'')]"
    using w2 p2 old by (simp add: l)
  have e3: "\<exists>st'. wave demo_env ''edge'' (dataset_worker demo_env ''edge'' ''tf'' None) 3
              (Some ''done'') 0 0 chunk st0 = Finished st'
          \<and> videos_processed st' ''in/t2.camA.mp4'' = Some 2
          \<and> videos_processed st' ''in/t1.camA.mp4'' = None
          \<and> moves (effects st') = []"
    by (rule exI[of _ st3]) (rule r3)
  have e2: "\<exists>st'. wave demo_env ''edge'' (dataset_worker demo_env ''edge'' ''tf'' None) 2
              (Some ''done'') 0 0 chunk st0 = Finished st'
          \<and> videos_processed st' ''in/t2.camA.mp4'' = None
          \<and> moves (effects st') = [(''in/t2.camA.mp4'', ''done'')]"
    by (rule exI[of _ st2]) (rule r2)
  note f = h1[unfolded chunk_def] h2[unfolded chunk_def]
    e3[unfolded st0_def chunk_def] e2[unfolded st0_def chunk_def]
  show ?thesis by (intro conjI f)
qed

section \<open>The accumulated table\<close>

lemma traverse_length: "traverse f xs = Inr ys \<Longrightarrow> length ys = length xs"
  by (induction xs arbitrary: ys) (auto split: sum.splits)

lemma infer_frames_length:
  "infer_frames env m framework frames = Inr data \<Longrightarrow> length data = length frames"
  by (induction frames arbitrary: data) (auto split: sum.splits)

lemma process_video_rows:
  assumes "process_video env v m framework out = Inr (rows, pkl)"
  shows "map fst rows = [0..<length (decode env v)]"
proof -
  obtain data shape where iv: "infer_video env v m framework = Inr (data, shape)"
    using assms by (auto simp: process_video_def split: sum.splits)
  then have len: "length data = length (decode env v)"
    by (auto simp: infer_video_def Let_def split: sum.splits dest: infer_frames_length)
  obtain scores where sc: "traverse (format_scores (fmt3 env)) data = Inr scores"
    and rows: "rows = map (\<lambda>(i, s). (i, s, map format_classes data ! i)) (enumerate 0 scores)"
    using assms iv by (auto simp: process_video_def Let_def split: sum.splits option.splits if_splits)
  have "map fst rows = map fst (enumerate 0 scores)"
    unfolding rows by (simp add: case_prod_unfold comp_def)
  also have "\<dots> = [0..<length scores]" by (simp add: map_fst_enumerate)
  finally show ?thesis using traverse_length[OF sc] len by simp
qed

lemma dataset_worker_rows:
  "dataset_worker env m framework out v = Inr r \<Longrightarrow> map fst r = [0..<length (decode env v)]"
  by (auto simp: dataset_worker_def process_video_parallel_def
      split: sum.splits if_splits dest: process_video_rows)

lemma tag_rows_frames:
  "tag_rows env m v r = Inr df \<Longrightarrow> map frame_id df = map fst r"
  by (auto simp: tag_rows_def split: sum.splits prod.splits)

lemma collect_results_workers:
  "collect_results env m worker idx chunk st = Finished st' \<Longrightarrow> v \<in> set chunk
     \<Longrightarrow> \<exists>r. worker v = Inr r \<and> (r = [] \<or> (\<exists>df. tag_rows env m v r = Inr df))"
proof (induction chunk arbitrary: st)
  case Nil
  then show ?case by simp
next
  case (Cons u rest)
  show ?case
  proof (cases "worker u")
    case (Inl e)
    then show ?thesis using Cons.prems by simp
  next
    case (Inr r)
    show ?thesis
    proof (cases "length r = 0")
      case True
      then show ?thesis using Cons Inr by auto
    next
      case False
      show ?thesis
      proof (cases "tag_rows env m u r")
        case (Inl e)
        then show ?thesis using Cons.prems Inr False by simp
      next
        case tag: (Inr df)
        have rest: "collect_results env m worker idx rest
                (st\<lparr>detections := detections st @ df,
                    effects := effects st @ [WriteTmp idx (detections st @ df)]\<rparr>) = Finished st'"
          using Cons.prems(1) Inr False tag by simp
        show ?thesis
        proof (cases "v = u")
          case True
          then show ?thesis using Inr tag by auto
        next
          case False
          then have "v \<in> set rest" using Cons.prems(2) by simp
          from Cons.IH[OF rest this] show ?thesis .
        qed
      qed
    qed
  qed
qed

lemma rows_of_video_frames:
  assumes "dataset_worker env m framework out v = Inr r"
    and "r = [] \<or> (\<exists>df. tag_rows env m v r = Inr df)"
  shows "map frame_id (rows_of_video env m (dataset_worker env m framework out) v)
         = [0..<length (decode env v)]"
proof (cases "r = []")
  case True
  then have "rows_of_video env m (dataset_worker env m framework out) v = []"
    using assms(1) by (simp add: rows_of_video_def tag_rows_def split: sum.splits prod.splits)
  moreover have "[0..<length (decode env v)] = []"
    using dataset_worker_rows[OF assms(1)] True by simp
  ultimately show ?thesis by simp
next
  case False
  then obtain df where df: "tag_rows env m v r = Inr df" using assms(2) by blast
  then have "rows_of_video env m (dataset_worker env m framework out) v = df"
    using assms(1) by (simp add: rows_of_video_def)
  then show ?thesis using tag_rows_frames[OF df] dataset_worker_rows[OF assms(1)] by simp
qed

lemma collect_results_frames:
  assumes "collect_results env m (dataset_worker env m framework out) idx chunk st = Finished st'"
  shows "map (\<lambda>v. map frame_id (rows_of_video env m (dataset_worker env m framework out) v)) chunk
         = map (\<lambda>v. [0..<length (decode env v)]) chunk"
proof (rule map_cong[OF refl])
  fix v assume "v \<in> set chunk"
  from collect_results_workers[OF assms this] obtain r where
    "dataset_worker env m framework out v = Inr r"
    "r = [] \<or> (\<exists>df. tag_rows env m v r = Inr df)" by blast
  then show "map frame_id (rows_of_video env m (dataset_worker env m framework out) v)
         = [0..<length (decode env v)]" by (rule rows_of_video_frames)
qed

lemma wave_rows:
  assumes "wave env m worker n mv previous c chunk st = Finished st'"
  shows "\<exists>mid. collect_results env m worker (int c + previous) chunk st = Finished mid
           \<and> detections st' = detections mid"
proof -
  obtain mid where mid: "collect_results env m worker (int c + previous) chunk st = Finished mid"
    and tc: "track_completion env n mv (last chunk) mid = Finished st'"
    using assms by (auto simp: wave_def split: outcome.splits)
  have "detections st' = detections mid"
    using track_completion_state[of env n mv "last chunk" mid] tc by simp
  then show ?thesis using mid by simp
qed

lemma run_waves_rows:
  "run_waves env m (dataset_worker env m framework out) n mv previous c cs st = Finished st'
   \<Longrightarrow> detections st' = detections st
         @ concat (map (rows_of_video env m (dataset_worker env m framework out)) (concat cs))
       \<and> map (\<lambda>v. map frame_id (rows_of_video env m (dataset_worker env m framework out) v))
             (concat cs)
         = map (\<lambda>v. [0..<length (decode env v)]) (concat cs)"
proof (induction cs arbitrary: c st)
  case Nil
  then show ?case by simp
next
  case (Cons chunk rest)
  define worker where "worker = dataset_worker env m framework out"
  obtain st1 where w: "wave env m worker n mv previous c chunk st = Finished st1"
    and r: "run_waves env m worker n mv previous (Suc c) rest st1 = Finished st'"
    using Cons.prems unfolding worker_def by (auto split: outcome.splits)
  obtain mid where mid: "collect_results env m worker (int c + previous) chunk st = Finished mid"
    and d: "detections st1 = detections mid"
    using wave_rows[OF w] by blast
  have a: "detections st1 = detections st @ concat (map (rows_of_video env m worker) chunk)"
    using collect_results_rows[OF mid] d by simp
  have b: "map (\<lambda>v. map frame_id (rows_of_video env m worker v)) chunk
         = map (\<lambda>v. [0..<length (decode env v)]) chunk"
    using mid unfolding worker_def by (rule collect_results_frames)
  have ih: "detections st' = detections st1
         @ concat (map (rows_of_video env m worker) (concat rest))
       \<and> map (\<lambda>v. map frame_id (rows_of_video env m worker v)) (concat rest)
         = map (\<lambda>v. [0..<length (decode env v)]) (concat rest)"
    using Cons.IH[of "Suc c" st1] r unfolding worker_def by simp
  show ?case using a b ih unfolding worker_def by simp
qed

lemma run_waves_grows:
  "\<exists>new. detections (outcome_state (run_waves env m worker n mv previous c cs st))
            = detections st @ new"
proof (induction cs arbitrary: c st)
  case Nil
  then show ?case by simp
next
  case (Cons chunk rest)
  obtain new1 where n1: "detections (outcome_state
        (collect_results env m worker (int c + previous) chunk st)) = detections st @ new1"
    using collect_results_grows by blast
  have w1: "detections (outcome_state (wave env m worker n mv previous c chunk st))
      = detections st @ new1"
    using n1 track_completion_state[of env n mv "last chunk"]
    by (cases "collect_results env m worker (int c + previous) chunk st")
       (simp_all add: wave_def)
  show ?case
  proof (cases "wave env m worker n mv previous c chunk st")
    case (Aborted e st1)
    then show ?thesis using w1 by simp
  next
    case (Finished st1)
    then have d: "detections st1 = detections st @ new1" using w1 by simp
    obtain new2 where "detections (outcome_state
        (run_waves env m worker n mv previous (Suc c) rest st1)) = detections st1 @ new2"
      using Cons[of "Suc c" st1] by blast
    then have "detections (outcome_state
        (run_waves env m worker n mv previous c (chunk # rest) st))
        = detections st @ (new1 @ new2)"
      using Finished d by simp
    then show ?thesis by blast
  qed
qed

text \<open>
  Claim C5. When the waves \<open>cs\<close> have been collected (from any state of the table,
  so in particular after \<open>N\<close> waves from the empty one), the table is the old table
  followed by the rows of the videos of these waves, in the order of collection;
  the rows of a video are one per decoded frame, numbered from 0, so a video
  without frames adds none; the number of rows has grown by the sum of the frame
  counts. Whatever happens in a run, the table it reaches extends the table it
  started from: rows are only appended.
\<close>

theorem accumulated_rows:
  assumes "run_waves env m (dataset_worker env m framework out) n mv previous c cs st
             = Finished st'"
  shows "detections st' = detections st
           @ concat (map (rows_of_video env m (dataset_worker env m framework out)) (concat cs))
         \<and> map frame_id
               (concat (map (rows_of_video env m (dataset_worker env m framework out)) (concat cs)))
             = concat (map (\<lambda>v. [0..<length (decode env v)]) (concat cs))
         \<and> length (detections st')
             = length (detections st) + sum_list (map (\<lambda>v. length (decode env v)) (concat cs))
         \<and> (\<forall>c' cs' st0. \<exists>new.
               detections (outcome_state
                 (run_waves env m (dataset_worker env m framework out) n mv previous c' cs' st0))
               = detections st0 @ new)"
proof -
  define worker where "worker = dataset_worker env m framework out"
  define new where "new = concat (map (rows_of_video env m worker) (concat cs))"
  have a: "detections st' = detections st @ new"
    and f: "map (\<lambda>v. map frame_id (rows_of_video env m worker v)) (concat cs)
         = map (\<lambda>v. [0..<length (decode env v)]) (concat cs)"
    using run_waves_rows[OF assms] unfolding worker_def new_def by simp_all
  have b: "map frame_id new = concat (map (\<lambda>v. [0..<length (decode env v)]) (concat cs))"
    unfolding new_def using f by (simp add: map_concat comp_def)
  have "length new = length (map frame_id new)" by simp
  also have "\<dots> = sum_list (map (\<lambda>v. length (decode env v)) (concat cs))"
    unfolding b by (simp add: length_concat comp_def)
  finally have l: "length (detections st')
      = length (detections st) + sum_list (map (\<lambda>v. length (decode env v)) (concat cs))"
    using a by simp
  have g: "\<forall>c' cs' st0. \<exists>new.
               detections (outcome_state (run_waves env m worker n mv previous c' cs' st0))
               = detections st0 @ new"
    using run_waves_grows by blast
  show ?thesis using a b l g unfolding new_def worker_def by blast
qed

theorem accumulated_rows_witness:
  "\<exists>st'. run_waves demo_env ''edge'' (dataset_worker demo_env ''edge'' ''tf'' None) 1 None 0 0
            [[''in/t1.camA.mp4'', ''in/t2.camA.mp4''], [''in/t3.camA.mp4'', ''in/t4.camB.mp4'']]
            init_state = Finished st'
         \<and> length (detections st') = 4
         \<and> map frame_id (detections st') = [0, 1, 0, 0]"
proof -
  have "case run_waves demo_env ''edge'' (dataset_worker demo_env ''edge'' ''tf'' None) 1 None 0 0
            [[''in/t1.camA.mp4'', ''in/t2.camA.mp4''], [''in/t3.camA.mp4'', ''in/t4.camB.mp4'']]
            init_state of Finished st \<Rightarrow> True | Aborted e st \<Rightarrow> False"
    by code_simp
  then obtain st' where h: "run_waves demo_env ''edge'' (dataset_worker demo_env ''edge'' ''tf'' None)
            1 None 0 0
            [[''in/t1.camA.mp4'', ''in/t2.camA.mp4''], [''in/t3.camA.mp4'', ''in/t4.camB.mp4'']]
            init_state = Finished st'"
    by (auto split: outcome.splits)
  note t = accumulated_rows[OF h]
  have d: "decode demo_env ''in/t1.camA.mp4'' = [0, 1]" "decode demo_env ''in/t2.camA.mp4'' = [2]"
    "decode demo_env ''in/t3.camA.mp4'' = []" "decode demo_env ''in/t4.camB.mp4'' = [3]"
    by (simp_all add: demo_env_def)
  have l: "length (detections st') = 4"
    using t[THEN conjunct2, THEN conjunct2, THEN conjunct1] by (simp add: d init_state_def)
  have "map frame_id (detections st') = map frame_id (concat (map
      (rows_of_video demo_env ''edge'' (dataset_worker demo_env ''edge'' ''tf'' None))
      (concat [[''in/t1.camA.mp4'', ''in/t2.camA.mp4''], [''in/t3.camA.mp4'', ''in/t4.camB.mp4'']])))"
    using t[THEN conjunct1] by (simp add: init_state_def)
  also have "\<dots> = [0, 1, 0, 0]"
    unfolding t[THEN conjunct2, THEN conjunct1] by (simp add: d)
  finally have f: "map frame_id (detections st') = [0, 1, 0, 0]" .
  show ?thesis by (rule exI[of _ st']) (intro conjI h l f)
qed

section \<open>Checkpoint numbering\<close>

lemma wave_indices:
  "\<exists>k. tmp_indices (effects (outcome_state (wave env m worker n mv previous c chunk st)))
        = tmp_indices (effects st) @ replicate k (int c + previous)"
proof -
  obtain k where k: "tmp_indices (effects (outcome_state
        (collect_results env m worker (int c + previous) chunk st)))
      = tmp_indices (effects st) @ replicate k (int c + previous)"
    using collect_results_indices by blast
  have "tmp_indices (effects (outcome_state (wave env m worker n mv previous c chunk st)))
      = tmp_indices (effects (outcome_state
          (collect_results env m worker (int c + previous) chunk st)))"
    by (cases "collect_results env m worker (int c + previous) chunk st")
       (simp_all add: wave_def track_completion_state)
  then show ?thesis using k by auto
qed

lemma run_waves_indices:
  "\<exists>new. tmp_indices (effects (outcome_state (run_waves env m worker n mv previous c cs st)))
            = tmp_indices (effects st) @ new
         \<and> sorted new
         \<and> (\<forall>i\<in>set new. int c + previous \<le> i \<and> i < int c + int (length cs) + previous)"
proof (induction cs arbitrary: c st)
  case Nil
  then show ?case by simp
next
  case (Cons chunk rest)
  obtain k where k: "tmp_indices (effects (outcome_state
        (wave env m worker n mv previous c chunk st)))
      = tmp_indices (effects st) @ replicate k (int c + previous)"
    using wave_indices by blast
  show ?case
  proof (cases "wave env m worker n mv previous c chunk st")
    case (Aborted e st1)
    then have "tmp_indices (effects (outcome_state
        (run_waves env m worker n mv previous c (chunk # rest) st)))
      = tmp_indices (effects st) @ replicate k (int c + previous)"
      using k by simp
    moreover have "sorted (replicate k (int c + previous))"
      by (simp add: sorted_replicate)
    moreover have "\<forall>i\<in>set (replicate k (int c + previous)).
        int c + previous \<le> i \<and> i < int c + int (length (chunk # rest)) + previous"
      by auto
    ultimately show ?thesis by blast
  next
    case (Finished st1)
    then have st1: "tmp_indices (effects st1)
        = tmp_indices (effects st) @ replicate k (int c + previous)"
      using k by simp
    obtain new where new: "tmp_indices (effects (outcome_state
          (run_waves env m worker n mv previous (Suc c) rest st1)))
        = tmp_indices (effects st1) @ new"
      and srt: "sorted new"
      and rng: "\<forall>i\<in>set new. int (Suc c) + previous \<le> i
                  \<and> i < int (Suc c) + int (length rest) + previous"
      using Cons[of "Suc c" st1] by blast
    have a: "tmp_indices (effects (outcome_state
        (run_waves env m worker n mv previous c (chunk # rest) st)))
      = tmp_indices (effects st) @ (replicate k (int c + previous) @ new)"
      using Finished new st1 by simp
    have b: "sorted (replicate k (int c + previous) @ new)"
      using srt rng by (auto simp: sorted_append sorted_replicate)
    have c: "\<forall>i\<in>set (replicate k (int c + previous) @ new).
        int c + previous \<le> i \<and> i < int c + int (length (chunk # rest)) + previous"
      using rng by auto
    show ?thesis using a b c by blast
  qed
qed

lemma previous_tmp_files_above: "i \<in> set ids \<Longrightarrow> i < previous_tmp_files ids"
proof -
  assume i: "i \<in> set ids"
  then have "ids \<noteq> []" by auto
  moreover have "i \<le> Max (set ids)" using i by simp
  ultimately show ?thesis by (simp add: previous_tmp_files_def)
qed

lemma process_dataset_unfold:
  "videos_to_process env output pv pa dataset = Inr videos
   \<Longrightarrow> traverse (\<lambda>x. x) tmp_on_disk = Inr ids
   \<Longrightarrow> waves_of videos w = Inr cs
   \<Longrightarrow> process_dataset env tmp_on_disk dataset m framework output pv pa mv w
       = (case run_waves env m (dataset_worker env m framework (if pv then Some output else None))
                 (length (models env)) mv (previous_tmp_files ids) 0 cs init_state of
            Aborted e st \<Rightarrow> Aborted e st
          | Finished st \<Rightarrow> Finished (st\<lparr>effects := effects st @ [WriteFinal (detections st)]\<rparr>))"
  by (simp add: process_dataset_def Let_def)

lemma process_dataset_no_videos:
  "videos_to_process env output pv pa dataset = Inl e
   \<Longrightarrow> process_dataset env tmp_on_disk dataset m framework output pv pa mv w
       = Aborted e init_state"
  by (simp add: process_dataset_def)

lemma process_dataset_bad_suffix:
  "videos_to_process env output pv pa dataset = Inr videos
   \<Longrightarrow> traverse (\<lambda>x. x) tmp_on_disk = Inl e
   \<Longrightarrow> process_dataset env tmp_on_disk dataset m framework output pv pa mv w
       = Aborted e init_state"
  by (simp add: process_dataset_def Let_def)

lemma process_dataset_no_waves:
  "videos_to_process env output pv pa dataset = Inr videos
   \<Longrightarrow> traverse (\<lambda>x. x) tmp_on_disk = Inr ids
   \<Longrightarrow> waves_of videos w = Inl e
   \<Longrightarrow> process_dataset env tmp_on_disk dataset m framework output pv pa mv w
       = Aborted e init_state"
  by (simp add: process_dataset_def Let_def)

lemma process_dataset_indices:
  assumes "traverse (\<lambda>x. x) tmp_on_disk = Inr ids"
  shows "sorted (tmp_indices (effects (outcome_state
            (process_dataset env tmp_on_disk dataset m framework output pv pa mv w))))
          \<and> (\<forall>i\<in>set (tmp_indices (effects (outcome_state
            (process_dataset env tmp_on_disk dataset m framework output pv pa mv w)))).
                previous_tmp_files ids \<le> i)"
proof (cases "videos_to_process env output pv pa dataset")
  case (Inl e)
  then have "process_dataset env tmp_on_disk dataset m framework output pv pa mv w
       = Aborted e init_state" by (rule process_dataset_no_videos)
  then show ?thesis by (simp add: init_state_def)
next
  case (Inr videos)
  show ?thesis
  proof (cases "waves_of videos w")
    case (Inl e)
    with Inr assms have "process_dataset env tmp_on_disk dataset m framework output pv pa mv w
       = Aborted e init_state" by (rule process_dataset_no_waves)
    then show ?thesis by (simp add: init_state_def)
  next
    case cs: (Inr cs)
    define worker where
      "worker = dataset_worker env m framework (if pv then Some output else None)"
    define out where "out = run_waves env m worker (length (models env)) mv
        (previous_tmp_files ids) 0 cs init_state"
    obtain new where new: "tmp_indices (effects (outcome_state out))
        = tmp_indices (effects init_state) @ new"
      and srt: "sorted new"
      and rng: "\<forall>i\<in>set new. int 0 + previous_tmp_files ids \<le> i
                  \<and> i < int 0 + int (length cs) + previous_tmp_files ids"
      unfolding out_def
      using run_waves_indices[of env m worker "length (models env)" mv "previous_tmp_files ids" 0 cs init_state]
      by blast
    have pd: "process_dataset env tmp_on_disk dataset m framework output pv pa mv w
       = (case out of
            Aborted e st \<Rightarrow> Aborted e st
          | Finished st \<Rightarrow> Finished (st\<lparr>effects := effects st @ [WriteFinal (detections st)]\<rparr>))"
      unfolding out_def worker_def using Inr assms cs by (rule process_dataset_unfold)
    have "tmp_indices (effects (outcome_state
            (process_dataset env tmp_on_disk dataset m framework output pv pa mv w)))
          = tmp_indices (effects (outcome_state out))"
      unfolding pd by (cases out) (simp_all add: tmp_indices_append)
    also have "\<dots> = new" using new by (simp add: init_state_def)
    finally show ?thesis using srt rng by simp
  qed
qed

lemma collect_results_count:
  "collect_results env m worker idx chunk st = Finished st'
     \<Longrightarrow> tmp_indices (effects st')
         = tmp_indices (effects st)
           @ replicate (length (filter (\<lambda>v. worker v \<noteq> Inr []) chunk)) idx"
proof (induction chunk arbitrary: st)
  case Nil
  then show ?case by simp
next
  case (Cons v rest)
  show ?case
  proof (cases "worker v")
    case (Inl e)
    then show ?thesis using Cons.prems by simp
  next
    case (Inr r)
    show ?thesis
    proof (cases "length r = 0")
      case True
      then show ?thesis using Cons Inr by simp
    next
      case False
      show ?thesis
      proof (cases "tag_rows env m v r")
        case (Inl e)
        then show ?thesis using Inr False Cons.prems by simp
      next
        case tag: (Inr df)
        have "collect_results env m worker idx rest
                (st\<lparr>detections := detections st @ df,
                    effects := effects st @ [WriteTmp idx (detections st @ df)]\<rparr>) = Finished st'"
          using Cons.prems Inr False tag by simp
        from Cons.IH[OF this] show ?thesis
          using Inr False by (simp add: tmp_indices_append replicate_app_Cons_same)
      qed
    qed
  qed
qed

lemma wave_count:
  assumes "wave env m worker n mv previous c chunk st = Finished st'"
  shows "tmp_indices (effects st')
         = tmp_indices (effects st)
           @ replicate (length (filter (\<lambda>v. worker v \<noteq> Inr []) chunk)) (int c + previous)"
proof -
  obtain mid where mid: "collect_results env m worker (int c + previous) chunk st = Finished mid"
    and tc: "track_completion env n mv (last chunk) mid = Finished st'"
    using assms by (auto simp: wave_def split: outcome.splits)
  have "tmp_indices (effects st') = tmp_indices (effects mid)"
    using track_completion_state[of env n mv "last chunk" mid] tc by simp
  then show ?thesis using collect_results_count[OF mid] by simp
qed

lemma run_waves_count:
  "run_waves env m worker n mv previous c cs st = Finished st'
     \<Longrightarrow> tmp_indices (effects st')
         = tmp_indices (effects st)
           @ concat (map (\<lambda>i. replicate (length (filter (\<lambda>v. worker v \<noteq> Inr []) (cs ! i)))
                                 (int (c + i) + previous))
                      [0..<length cs])"
proof (induction cs arbitrary: c st)
  case Nil
  then show ?case by simp
next
  case (Cons chunk rest)
  obtain st1 where w: "wave env m worker n mv previous c chunk st = Finished st1"
    and r: "run_waves env m worker n mv previous (Suc c) rest st1 = Finished st'"
    using Cons.prems by (auto split: outcome.splits)
  have upt: "[0..<length (chunk # rest)] = 0 # map Suc [0..<length rest]"
    by (simp add: upt_conv_Cons map_Suc_upt del: upt_Suc)
  show ?case
    unfolding upt using Cons.IH[OF r] wave_count[OF w]
    by (simp add: comp_def algebra_simps)
qed

lemma run_waves_workers:
  "run_waves env m worker n mv previous c cs st = Finished st' \<Longrightarrow> v \<in> set (concat cs)
     \<Longrightarrow> \<exists>r. worker v = Inr r"
proof (induction cs arbitrary: c st)
  case Nil
  then show ?case by simp
next
  case (Cons chunk rest)
  obtain st1 where w: "wave env m worker n mv previous c chunk st = Finished st1"
    and r: "run_waves env m worker n mv previous (Suc c) rest st1 = Finished st'"
    using Cons.prems(1) by (auto split: outcome.splits)
  show ?case
  proof (cases "v \<in> set chunk")
    case True
    obtain mid where "collect_results env m worker (int c + previous) chunk st = Finished mid"
      using wave_rows[OF w] by blast
    from collect_results_workers[OF this True] show ?thesis by blast
  next
    case False
    then have "v \<in> set (concat rest)" using Cons.prems(2) by simp
    from Cons.IH[OF r this] show ?thesis .
  qed
qed

lemma dataset_worker_frames:
  "dataset_worker env m framework out v = Inr r
     \<Longrightarrow> (dataset_worker env m framework out v \<noteq> Inr []) = (decode env v \<noteq> [])"
proof -
  assume "dataset_worker env m framework out v = Inr r"
  then have w: "dataset_worker env m framework out v = Inr r"
    and "map fst r = [0..<length (decode env v)]"
    using dataset_worker_rows[of env m framework out v r] by auto
  then have "length (map fst r) = length [0..<length (decode env v)]" by simp
  then have "length r = length (decode env v)" by simp
  then have "(r \<noteq> []) = (decode env v \<noteq> [])" by auto
  then show ?thesis using w by simp
qed

text \<open>
  Claim C4, amended. A checkpoint is written for every non-empty result, inside the
  loop over the results. In a run that reaches its end, with the indices of the
  temporary files on disk read successfully, the indices of the checkpoints written
  are, in order: for the chunks \<open>i = 0, 1, ...\<close> in turn, the index \<open>i + offset\<close>
  once for every video of chunk \<open>i\<close> that has a frame, where the offset is one plus
  the highest index on disk and 0 when there is none. So the indices of different
  chunks increase strictly with the chunk, a chunk without frames writes no
  checkpoint, and no index written was on disk at startup; the last two hold of
  every run, also one cut by an exception. With the indices 0 and 1 on disk the
  checkpoints of the first chunk are numbered 2.
\<close>

theorem checkpoint_indices:
  assumes "traverse (\<lambda>x. x) tmp_on_disk = Inr ids"
    and "videos_to_process env output pv pa dataset = Inr videos"
    and "waves_of videos w = Inr cs"
    and "process_dataset env tmp_on_disk dataset m framework output pv pa mv w = Finished st'"
  shows "tmp_indices (effects st')
           = concat (map (\<lambda>i. replicate (length (filter (\<lambda>v. decode env v \<noteq> []) (cs ! i)))
                                 (int i + (if ids = [] then 0 else Max (set ids) + 1)))
                      [0..<length cs])
         \<and> (\<forall>dataset' w'.
               sorted (tmp_indices (effects (outcome_state
                 (process_dataset env tmp_on_disk dataset' m framework output pv pa mv w'))))
               \<and> (\<forall>i\<in>set (tmp_indices (effects (outcome_state
                     (process_dataset env tmp_on_disk dataset' m framework output pv pa mv w')))).
                     i \<notin> set ids))"
proof -
  define worker where
    "worker = dataset_worker env m framework (if pv then Some output else None)"
  define offset where "offset = (if ids = [] then 0 else Max (set ids) + 1)"
  have off: "previous_tmp_files ids = offset"
    by (simp add: previous_tmp_files_def offset_def)
  obtain st0 where run: "run_waves env m worker (length (models env)) mv offset 0 cs init_state
      = Finished st0"
    and st': "st' = st0\<lparr>effects := effects st0 @ [WriteFinal (detections st0)]\<rparr>"
    using assms(4) process_dataset_unfold[OF assms(2) assms(1) assms(3), of m framework mv]
    unfolding worker_def[symmetric] off by (auto split: outcome.splits)
  have "tmp_indices (effects st') = tmp_indices (effects st0)"
    by (simp add: st' tmp_indices_append)
  also have "\<dots> = concat (map (\<lambda>i. replicate (length (filter (\<lambda>v. worker v \<noteq> Inr []) (cs ! i)))
                                 (int (0 + i) + offset))
                      [0..<length cs])"
    using run_waves_count[OF run] by (simp add: init_state_def)
  also have "\<dots> = concat (map (\<lambda>i. replicate (length (filter (\<lambda>v. decode env v \<noteq> []) (cs ! i)))
                                 (int i + offset))
                      [0..<length cs])"
  proof -
    have "\<And>i. i \<in> set [0..<length cs]
        \<Longrightarrow> filter (\<lambda>v. worker v \<noteq> Inr []) (cs ! i) = filter (\<lambda>v. decode env v \<noteq> []) (cs ! i)"
    proof (rule filter_cong[OF refl])
      fix i v assume i: "i \<in> set [0..<length cs]" and v: "v \<in> set (cs ! i)"
      then have "cs ! i \<in> set cs" by simp
      then have "v \<in> set (concat cs)" using v by auto
      from run_waves_workers[OF run this] obtain r where "worker v = Inr r" by blast
      then show "(worker v \<noteq> Inr []) = (decode env v \<noteq> [])"
        unfolding worker_def by (rule dataset_worker_frames)
    qed
    then have "map (\<lambda>i. replicate (length (filter (\<lambda>v. worker v \<noteq> Inr []) (cs ! i)))
                                 (int (0 + i) + offset)) [0..<length cs]
        = map (\<lambda>i. replicate (length (filter (\<lambda>v. decode env v \<noteq> []) (cs ! i)))
                                 (int i + offset)) [0..<length cs]"
      by (intro map_cong[OF refl]) simp
    then show ?thesis by (rule arg_cong[where f = concat])
  qed
  finally have a: "tmp_indices (effects st')
           = concat (map (\<lambda>i. replicate (length (filter (\<lambda>v. decode env v \<noteq> []) (cs ! i)))
                                 (int i + offset))
                      [0..<length cs])" .
  have b: "\<forall>dataset' w'.
               sorted (tmp_indices (effects (outcome_state
                 (process_dataset env tmp_on_disk dataset' m framework output pv pa mv w'))))
               \<and> (\<forall>i\<in>set (tmp_indices (effects (outcome_state
                     (process_dataset env tmp_on_disk dataset' m framework output pv pa mv w')))).
                     i \<notin> set ids)"
  proof (intro allI conjI ballI)
    fix dataset' w'
    show "sorted (tmp_indices (effects (outcome_state
                 (process_dataset env tmp_on_disk dataset' m framework output pv pa mv w'))))"
      using process_dataset_indices[OF assms(1)] by blast
  next
    fix dataset' w' i
    assume "i \<in> set (tmp_indices (effects (outcome_state
                 (process_dataset env tmp_on_disk dataset' m framework output pv pa mv w'))))"
    then have "previous_tmp_files ids \<le> i"
      using process_dataset_indices[OF assms(1)] by blast
    moreover have "i \<in> set ids \<Longrightarrow> i < previous_tmp_files ids"
      by (rule previous_tmp_files_above)
    ultimately show "i \<notin> set ids" by auto
  qed
  show ?thesis using a b unfolding offset_def by (intro conjI)
qed

theorem checkpoint_indices_witness:
  "traverse (\<lambda>x. x) [Inr 0, Inr 1] = Inr [0, 1::int]
   \<and> videos_to_process demo_env ''out'' False True demo_dataset = Inr demo_dataset
   \<and> waves_of demo_dataset 1
       = Inr [[''in/t1.camA.mp4'', ''in/t2.camA.mp4''], [''in/t3.camA.mp4'', ''in/t4.camB.mp4'']]
   \<and> (\<exists>st'. process_dataset demo_env [Inr 0, Inr 1] demo_dataset ''edge'' ''tf'' ''out''
               False True None 1 = Finished st'
            \<and> tmp_indices (effects st') = [2, 2, 3])"
proof -
  have h: "traverse (\<lambda>x. x) [Inr 0, Inr 1] = Inr [0, 1::int]" by simp
  have v: "videos_to_process demo_env ''out'' False True demo_dataset = Inr demo_dataset"
    by (simp add: videos_to_process_def enumerate_videos_def)
  have c: "waves_of demo_dataset 1
       = Inr [[''in/t1.camA.mp4'', ''in/t2.camA.mp4''], [''in/t3.camA.mp4'', ''in/t4.camB.mp4'']]"
    by code_simp
  have "case process_dataset demo_env [Inr 0, Inr 1] demo_dataset ''edge'' ''tf'' ''out''
               False True None 1 of Finished st \<Rightarrow> True | Aborted e st \<Rightarrow> False"
    by code_simp
  then obtain st' where f: "process_dataset demo_env [Inr 0, Inr 1] demo_dataset ''edge'' ''tf''
      ''out'' False True None 1 = Finished st'"
    by (auto split: outcome.splits)
  have e: "concat (map (\<lambda>i. replicate
              (length (filter (\<lambda>v. decode demo_env v \<noteq> [])
                 ([[''in/t1.camA.mp4'', ''in/t2.camA.mp4''],
                   [''in/t3.camA.mp4'', ''in/t4.camB.mp4'']] ! i)))
              (int i + (if [0, 1::int] = [] then 0 else Max (set [0, 1]) + 1)))
            [0..<length [[''in/t1.camA.mp4'', ''in/t2.camA.mp4''],
                         [''in/t3.camA.mp4'', ''in/t4.camB.mp4'']]])
       = [2, 2, 3]"
    by code_simp
  have i: "tmp_indices (effects st') = [2, 2, 3]"
    using checkpoint_indices[OF h v c f, THEN conjunct1] unfolding e .
  have r: "process_dataset demo_env [Inr 0, Inr 1] demo_dataset ''edge'' ''tf'' ''out''
               False True None 1 = Finished st'
            \<and> tmp_indices (effects st') = [2, 2, 3]"
    using f i by (intro conjI)
  have ex: "\<exists>st'. process_dataset demo_env [Inr 0, Inr 1] demo_dataset ''edge'' ''tf'' ''out''
               False True None 1 = Finished st'
            \<and> tmp_indices (effects st') = [2, 2, 3]"
    by (rule exI[of _ st']) (rule r)
  show ?thesis by (intro conjI h v c ex)
qed

text \<open>
  With the indices 0 and 1 on disk and a first chunk whose two videos have no
  frame, the run writes a single checkpoint, for the second chunk, and its index
  is 3: the first new checkpoint is not numbered 2.
\<close>

theorem frameless_chunk_counterexample:
  "tmp_indices (effects (outcome_state
     (process_dataset demo_env [Inr 0, Inr 1]
        [''in/t3.camA.mp4'', ''in/t5.camA.mp4'', ''in/t1.camA.mp4'']
        ''edge'' ''tf'' ''out'' False True None 1))) = [3]
   \<and> waves_of [''in/t3.camA.mp4'', ''in/t5.camA.mp4'', ''in/t1.camA.mp4''] 1
       = Inr [[''in/t3.camA.mp4'', ''in/t5.camA.mp4''], [''in/t1.camA.mp4'']]"
  by code_simp

section \<open>Videos without frames\<close>

lemma infer_video_no_frames:
  "decode env filename = [] \<Longrightarrow> infer_video env filename m framework = Inr ([], [0, 0])"
  by (simp add: infer_video_def)

lemma process_video_no_frames:
  "decode env filename = [] \<Longrightarrow> process_video env filename m framework output = Inr ([], None)"
  by (simp add: process_video_def infer_video_no_frames enumerate_eq_zip split: option.splits)

lemma dataset_worker_no_frames:
  "decode env filename = [] \<Longrightarrow>
     dataset_worker env m framework output filename
       = (if m \<in> set (models env) then Inr [] else Inl KeyError)"
  by (simp add: dataset_worker_def process_video_parallel_def process_video_no_frames)

text \<open>
  Claim C9. For a video from which no frame can be read, \<^verbatim>\<open>infer_video\<close> returns the
  empty list of per-frame results and the shape \<open>(0, 0)\<close>; \<^verbatim>\<open>process_video\<close> then
  returns no rows and writes no pickle, neither of them raising; and the
  coordinator skips the video: collecting its result changes neither the table nor
  the files written, and with the model loaded the loop simply goes on with the
  rest of the chunk.
\<close>

theorem no_frames_no_rows:
  assumes "decode env filename = []"
  shows "infer_video env filename m framework = Inr ([], [0, 0])
         \<and> process_video env filename m framework output = Inr ([], None)
         \<and> (m \<in> set (models env) \<longrightarrow>
              (\<forall>idx rest st.
                 collect_results env m (dataset_worker env m framework output) idx
                   (filename # rest) st
                 = collect_results env m (dataset_worker env m framework output) idx rest st))
         \<and> (\<forall>idx st.
               detections (outcome_state
                 (collect_results env m (dataset_worker env m framework output) idx [filename] st))
               = detections st
               \<and> effects (outcome_state
                 (collect_results env m (dataset_worker env m framework output) idx [filename] st))
               = effects st)"
proof -
  have a: "infer_video env filename m framework = Inr ([], [0, 0])"
    using assms by (rule infer_video_no_frames)
  have b: "process_video env filename m framework output = Inr ([], None)"
    using assms by (rule process_video_no_frames)
  have w: "dataset_worker env m framework output filename
       = (if m \<in> set (models env) then Inr [] else Inl KeyError)"
    using assms by (rule dataset_worker_no_frames)
  have c: "m \<in> set (models env) \<longrightarrow>
              (\<forall>idx rest st.
                 collect_results env m (dataset_worker env m framework output) idx
                   (filename # rest) st
                 = collect_results env m (dataset_worker env m framework output) idx rest st)"
    by (simp add: w)
  have d: "\<forall>idx st.
               detections (outcome_state
                 (collect_results env m (dataset_worker env m framework output) idx [filename] st))
               = detections st
               \<and> effects (outcome_state
                 (collect_results env m (dataset_worker env m framework output) idx [filename] st))
               = effects st"
    by (simp add: w)
  show ?thesis by (intro conjI a b c d)
qed

theorem no_frames_no_rows_witness:
  "decode demo_env ''in/t3.camA.mp4'' = []
   \<and> infer_video demo_env ''in/t3.camA.mp4'' ''edge'' ''tf'' = Inr ([], [0, 0])
   \<and> process_video demo_env ''in/t3.camA.mp4'' ''edge'' ''tf'' (Some ''out'') = Inr ([], None)
   \<and> collect_results demo_env ''edge'' (dataset_worker demo_env ''edge'' ''tf'' (Some ''out'')) 0
        [''in/t3.camA.mp4''] init_state = Finished init_state"
proof -
  have h: "decode demo_env ''in/t3.camA.mp4'' = []" by (simp add: demo_env_def)
  note t = no_frames_no_rows[OF h, of "''edge''" "''tf''" "Some ''out''"]
  have m: "''edge'' \<in> set (models demo_env)" by (simp add: demo_env_def)
  have c: "collect_results demo_env ''edge'' (dataset_worker demo_env ''edge'' ''tf'' (Some ''out'')) 0
        [''in/t3.camA.mp4''] init_state = Finished init_state"
    using t[THEN conjunct2, THEN conjunct2, THEN conjunct1, rule_format, OF m, of 0 "[]" init_state]
    by simp
  show ?thesis
    by (intro conjI h t[THEN conjunct1] t[THEN conjunct2, THEN conjunct1] c)
qed

section \<open>Per-video mode\<close>

lemma waves_of_concat: "waves_of xs w = Inr cs \<Longrightarrow> 1 \<le> w \<Longrightarrow> concat cs = xs"
proof -
  assume a: "waves_of xs w = Inr cs" and w: "1 \<le> w"
  have ne: "xs \<noteq> []"
  proof
    assume "xs = []"
    then have "waves_of xs w = Inl ValueError" using w by (simp add: waves_of_empty)
    then show False using a by simp
  qed
  then have "1 \<le> clamp_workers xs w" using w by (rule clamp_workers_pos)
  then have n: "0 < nat (clamp_workers xs w * 2)" by simp
  have "cs = chunks_from (nat (clamp_workers xs w * 2)) xs"
    using a n by (simp add: waves_of_def chunks_def split: if_splits)
  then show ?thesis using n by (simp add: chunks_from_concat)
qed

lemma waves_of_subset: "waves_of xs w = Inr cs \<Longrightarrow> set (concat cs) \<subseteq> set xs"
proof -
  assume a: "waves_of xs w = Inr cs"
  show ?thesis
  proof (cases "0 < clamp_workers xs w * 2")
    case True
    then have n: "0 < nat (clamp_workers xs w * 2)" by simp
    have "cs = chunks_from (nat (clamp_workers xs w * 2)) xs"
      using a True by (simp add: waves_of_def chunks_def split: if_splits)
    then show ?thesis using n by (simp add: chunks_from_concat)
  next
    case False
    then have "cs = []" using a by (simp add: waves_of_def chunks_def split: if_splits)
    then show ?thesis by simp
  qed
qed

lemma process_video_pickle_path:
  "process_video env v m framework (Some out) = Inr (rows, Some (p, content))
     \<Longrightarrow> p = pkl_path out v"
  by (auto simp: process_video_def Let_def split: sum.splits prod.splits if_splits)

lemma skip_processed_again:
  "(\<And>p. isfile env p \<Longrightarrow> isfile env' p)
     \<Longrightarrow> skip_processed env' output (skip_processed env output videos)
         = skip_processed env' output videos"
  by (induction videos) (auto simp: skip_processed_def)

text \<open>
  Claim C8. In per-video mode the videos that go on to be processed are the
  enumerated ones whose pickle \<^verbatim>\<open>{output}/{stem}.pkl\<close> is not in the output
  directory, in their order; every video of every wave is one of them (and for a
  worker count \<open>\<ge> 1\<close> the waves hold exactly them). The pickle a worker writes for a
  video is the file this test looks for, so on a re-run, where the files of the
  first run are still there, skipping again gives the same list as skipping once
  with the later directory: a video whose file exists is never processed again.
\<close>

theorem per_video_skip:
  assumes "enumerate_videos env process_all dataset = Inr all"
  shows "videos_to_process env output True process_all dataset
           = Inr (filter (\<lambda>v. \<not> isfile env (pkl_path output v)) all)
         \<and> (\<forall>w cs. waves_of (filter (\<lambda>v. \<not> isfile env (pkl_path output v)) all) w = Inr cs
               \<longrightarrow> (\<forall>v\<in>set (concat cs). v \<in> set all \<and> \<not> isfile env (pkl_path output v))
                   \<and> (1 \<le> w \<longrightarrow> concat cs = filter (\<lambda>v. \<not> isfile env (pkl_path output v)) all))
         \<and> (\<forall>v m framework rows p content.
               process_video env v m framework (Some output) = Inr (rows, Some (p, content))
               \<longrightarrow> p = pkl_path output v)
         \<and> (\<forall>env'. (\<forall>p. isfile env p \<longrightarrow> isfile (env' :: 'a env) p)
               \<longrightarrow> skip_processed env' output (skip_processed env output all)
                   = skip_processed env' output all)
         \<and> skip_processed env output (skip_processed env output all)
             = skip_processed env output all"
proof -
  define todo where "todo = filter (\<lambda>v. \<not> isfile env (pkl_path output v)) all"
  have a: "videos_to_process env output True process_all dataset = Inr todo"
    using assms by (simp add: videos_to_process_def skip_processed_def todo_def)
  have b: "\<forall>w cs. waves_of todo w = Inr cs
               \<longrightarrow> (\<forall>v\<in>set (concat cs). v \<in> set all \<and> \<not> isfile env (pkl_path output v))
                   \<and> (1 \<le> w \<longrightarrow> concat cs = todo)"
  proof (intro allI impI conjI ballI)
    fix w cs v assume w: "waves_of todo w = Inr cs" and v: "v \<in> set (concat cs)"
    from waves_of_subset[OF w] v have "v \<in> set todo" by blast
    then show "v \<in> set all" "\<not> isfile env (pkl_path output v)" by (simp_all add: todo_def)
  next
    fix w :: int and cs assume "waves_of todo w = Inr cs" "1 \<le> w"
    then show "concat cs = todo" by (rule waves_of_concat)
  qed
  have c: "\<forall>v m framework rows p content.
               process_video env v m framework (Some output) = Inr (rows, Some (p, content))
               \<longrightarrow> p = pkl_path output v"
    using process_video_pickle_path by blast
  have d: "\<forall>env'. (\<forall>p. isfile env p \<longrightarrow> isfile (env' :: 'a env) p)
               \<longrightarrow> skip_processed env' output (skip_processed env output all)
                   = skip_processed env' output all"
    using skip_processed_again by blast
  have e: "skip_processed env output (skip_processed env output all)
             = skip_processed env output all"
    by (rule skip_processed_again) simp
  show ?thesis using a b c d e unfolding todo_def by (intro conjI)
qed

theorem per_video_skip_witness:
  "enumerate_videos demo_env True demo_dataset = Inr demo_dataset
   \<and> isfile demo_env (pkl_path ''out'' ''in/t2.camA.mp4'')
   \<and> videos_to_process demo_env ''out'' True True demo_dataset
       = Inr [''in/t1.camA.mp4'', ''in/t3.camA.mp4'', ''in/t4.camB.mp4'']"
proof -
  have h: "enumerate_videos demo_env True demo_dataset = Inr demo_dataset"
    by (simp add: enumerate_videos_def)
  have f: "isfile demo_env (pkl_path ''out'' ''in/t2.camA.mp4'')" by code_simp
  have g: "filter (\<lambda>v. \<not> isfile demo_env (pkl_path ''out'' v)) demo_dataset
      = [''in/t1.camA.mp4'', ''in/t3.camA.mp4'', ''in/t4.camB.mp4'']"
    by code_simp
  have v: "videos_to_process demo_env ''out'' True True demo_dataset
       = Inr [''in/t1.camA.mp4'', ''in/t3.camA.mp4'', ''in/t4.camB.mp4'']"
    using per_video_skip[OF h, of "''out''", THEN conjunct1] unfolding g .
  show ?thesis by (intro conjI h f v)
qed

section \<open>Fast mode\<close>

lemma first_per_key_fresh:
  "x \<in> set (first_per_key key seen xs) \<Longrightarrow> key x \<notin> seen"
  by (induction xs arbitrary: seen) (auto split: if_splits)

lemma first_per_key_distinct: "distinct (map key (first_per_key key seen xs))"
proof (induction xs arbitrary: seen)
  case Nil
  then show ?case by simp
next
  case (Cons x xs)
  show ?case
  proof (cases "key x \<in> seen")
    case True
    then show ?thesis using Cons by simp
  next
    case False
    have "key x \<notin> key ` set (first_per_key key (insert (key x) seen) xs)"
    proof
      assume "key x \<in> key ` set (first_per_key key (insert (key x) seen) xs)"
      then obtain y where y: "y \<in> set (first_per_key key (insert (key x) seen) xs)"
        and e: "key x = key y" by (rule imageE)
      from first_per_key_fresh[OF y] have "key y \<noteq> key x" by simp
      then show False using e by simp
    qed
    then show ?thesis using False Cons by simp
  qed
qed

lemma first_per_key_keys:
  "key ` set (first_per_key key seen xs) = key ` set xs - seen"
  by (induction xs arbitrary: seen) auto

lemma first_per_key_positions:
  "first_per_key key seen xs
     = map (\<lambda>i. xs ! i)
         (filter (\<lambda>i. key (xs ! i) \<notin> seen \<union> key ` set (take i xs)) [0..<length xs])"
proof (induction xs arbitrary: seen)
  case Nil
  then show ?case by simp
next
  case (Cons x xs)
  have upt: "[0..<length (x # xs)] = 0 # map Suc [0..<length xs]"
    by (simp add: upt_conv_Cons map_Suc_upt del: upt_Suc)
  have shift: "\<And>s. map (\<lambda>i. (x # xs) ! i)
        (filter (\<lambda>i. key ((x # xs) ! i) \<notin> seen \<union> key ` set (take i (x # xs)))
           (map Suc [0..<length xs]))
      = map (\<lambda>i. xs ! i)
          (filter (\<lambda>i. key (xs ! i) \<notin> insert (key x) seen \<union> key ` set (take i xs))
             [0..<length xs])"
    by (simp add: filter_map comp_def conj_ac)
  show ?case
  proof (cases "key x \<in> seen")
    case True
    then have ins: "insert (key x) seen = seen" by auto
    show ?thesis
      unfolding upt using True Cons[of seen] shift by (simp add: ins conj_ac)
  next
    case False
    show ?thesis
      unfolding upt using False Cons[of "insert (key x) seen"] shift by (simp add: conj_ac)
  qed
qed

lemma date_hour_key_stem:
  "date_hour_key env f = Inr k \<Longrightarrow> stem f \<noteq> []"
  by (auto simp: date_hour_key_def stem_fields_def py_nth_def split: sum.splits if_splits)

lemma fast_select_spec:
  "fast_select env dataset videos processed_ts = Inr out
   \<Longrightarrow> (\<forall>f\<in>set dataset. \<exists>k. date_hour_key env f = Inr k)
       \<and> out = videos @ first_per_key (date_hour_key env)
                          {Inr k |k. truthy processed_ts k} dataset"
proof (induction dataset arbitrary: videos processed_ts)
  case Nil
  then show ?case by simp
next
  case (Cons f dataset)
  from Cons.prems obtain k where k: "date_hour_key env f = Inr k"
    by (cases "date_hour_key env f") simp_all
  show ?case
  proof (cases "truthy processed_ts k")
    case True
    then have "fast_select env dataset videos processed_ts = Inr out"
      using Cons.prems k by simp
    from Cons.IH[OF this] show ?thesis using k True by simp
  next
    case False
    have ne: "stem f \<noteq> []" using k by (rule date_hour_key_stem)
    have seen: "{Inr k' |k'. truthy (processed_ts(k \<mapsto> stem f)) k'}
        = insert (Inr k) {Inr k' |k'. truthy processed_ts k'}"
      using ne by (auto simp: truthy_def)
    have "fast_select env dataset (videos @ [f]) (processed_ts(k \<mapsto> stem f)) = Inr out"
      using Cons.prems k False by simp
    from Cons.IH[OF this, unfolded seen] show ?thesis using k False by simp
  qed
qed

lemma fast_select_total:
  "\<forall>f\<in>set dataset. \<exists>k. date_hour_key env f = Inr k
   \<Longrightarrow> \<exists>out. fast_select env dataset videos processed_ts = Inr out"
proof (induction dataset arbitrary: videos processed_ts)
  case Nil
  then show ?case by simp
next
  case (Cons f dataset)
  then obtain k where k: "date_hour_key env f = Inr k" by auto
  have rest: "\<forall>f\<in>set dataset. \<exists>k. date_hour_key env f = Inr k" using Cons.prems by simp
  show ?case
  proof (cases "truthy processed_ts k")
    case True
    from Cons.IH[OF rest] obtain out where
      "fast_select env dataset videos processed_ts = Inr out" by blast
    then show ?thesis using k True by simp
  next
    case False
    from Cons.IH[OF rest] obtain out where
      "fast_select env dataset (videos @ [f]) (processed_ts(k \<mapsto> stem f)) = Inr out"
      by blast
    then show ?thesis using k False by simp
  qed
qed

text \<open>The key string against the bucket.\<close>

lemma bucket_key:
  "bucket env f = Some (c, d, h)
     \<Longrightarrow> date_hour_key env f = Inr (''['' @ c @ ''] '' @ d @ '':'' @ h)"
  by (auto simp: bucket_def date_hour_key_def stem_fields_def split_date_def py_nth_def
           split: list.splits sum.splits)

lemma no_bucket_no_key:
  "bucket env f = None \<Longrightarrow> \<exists>e. date_hour_key env f = Inl e"
  by (auto simp: bucket_def date_hour_key_def stem_fields_def split_date_def py_nth_def
           split: list.splits sum.splits)

lemma bucket_format:
  "pandas_timestamps env \<Longrightarrow> bucket env f = Some (c, d, h)
     \<Longrightarrow> length d = 10 \<and> CHR '':'' \<notin> set h"
  unfolding pandas_timestamps_def
  by (auto simp: bucket_def split: list.splits sum.splits)

lemma split_at_last:
  assumes "a \<notin> set ys" and "a \<notin> set ys'" and eq: "xs @ a # ys = xs' @ a # ys'"
  shows "xs = xs' \<and> ys = ys'"
proof -
  have t: "\<And>us vs. a \<notin> set vs
      \<Longrightarrow> takeWhile (\<lambda>x. x \<noteq> a) (rev (us @ a # vs)) = rev vs"
    by (auto simp: takeWhile_tail)
  have "rev ys = rev ys'"
    using t[OF assms(1), of xs] t[OF assms(2), of xs'] eq by simp
  then have "ys = ys'" by simp
  then show ?thesis using eq by simp
qed

lemma key_string_inj:
  assumes eq: "''['' @ c @ ''] '' @ d @ '':'' @ h = ''['' @ c' @ ''] '' @ d' @ '':'' @ h'"
    and len: "length d = length d'"
    and h: "CHR '':'' \<notin> set h" and h': "CHR '':'' \<notin> set h'"
  shows "c = c' \<and> d = d' \<and> h = h'"
proof -
  have r: "(''['' @ c @ ''] '' @ d) @ CHR '':'' # h = (''['' @ c' @ ''] '' @ d') @ CHR '':'' # h'"
    using eq by simp
  have "''['' @ c @ ''] '' @ d = ''['' @ c' @ ''] '' @ d' \<and> h = h'"
    by (rule split_at_last[OF h h' r])
  then have hh: "h = h'" and e: "(c @ ''] '') @ d = (c' @ ''] '') @ d'" by simp_all
  have "c @ ''] '' = c' @ ''] '' \<and> d = d'"
    by (rule append_eq_append_conv[THEN iffD1, OF disjI2[OF len] e])
  then show ?thesis using hh by simp
qed

lemma key_eq_bucket_eq:
  assumes "pandas_timestamps env"
    and "bucket env f \<noteq> None" and "bucket env g \<noteq> None"
  shows "(date_hour_key env f = date_hour_key env g) = (bucket env f = bucket env g)"
proof -
  obtain c d h where f: "bucket env f = Some (c, d, h)" using assms(2) by auto
  obtain c' d' h' where g: "bucket env g = Some (c', d', h')" using assms(3) by auto
  note kf = bucket_key[OF f] and kg = bucket_key[OF g]
  note ff = bucket_format[OF assms(1) f] and fg = bucket_format[OF assms(1) g]
  show ?thesis
  proof
    assume "date_hour_key env f = date_hour_key env g"
    then have "''['' @ c @ ''] '' @ d @ '':'' @ h = ''['' @ c' @ ''] '' @ d' @ '':'' @ h'"
      unfolding kf kg by (simp only: sum.inject)
    then have "c = c' \<and> d = d' \<and> h = h'"
      using ff fg by (intro key_string_inj) simp_all
    then show "bucket env f = bucket env g" unfolding f g by simp
  next
    assume "bucket env f = bucket env g"
    then have "c = c' \<and> d = d' \<and> h = h'" unfolding f g by simp
    then show "date_hour_key env f = date_hour_key env g" unfolding kf kg by simp
  qed
qed

lemma first_positions_cong:
  assumes "\<And>x y. x \<in> set xs \<Longrightarrow> y \<in> set xs \<Longrightarrow> (key x = key y) = (key' x = key' y)"
  shows "filter (\<lambda>i. key (xs ! i) \<notin> key ` set (take i xs)) [0..<length xs]
       = filter (\<lambda>i. key' (xs ! i) \<notin> key' ` set (take i xs)) [0..<length xs]"
proof (rule filter_cong[OF refl])
  fix i assume "i \<in> set [0..<length xs]"
  then have i: "xs ! i \<in> set xs" by simp
  have sub: "\<And>y. y \<in> set (take i xs) \<Longrightarrow> y \<in> set xs" by (rule in_set_takeD)
  have "(key (xs ! i) \<in> key ` set (take i xs)) = (\<exists>y\<in>set (take i xs). key (xs ! i) = key y)"
    by auto
  also have "\<dots> = (\<exists>y\<in>set (take i xs). key' (xs ! i) = key' y)"
    using assms[OF i sub] by auto
  also have "\<dots> = (key' (xs ! i) \<in> key' ` set (take i xs))" by auto
  finally show "(key (xs ! i) \<notin> key ` set (take i xs)) = (key' (xs ! i) \<notin> key' ` set (take i xs))"
    by simp
qed

lemma fast_select_buckets:
  assumes c: "pandas_timestamps env"
    and run: "enumerate_videos env False dataset = Inr videos"
  shows "(\<forall>f\<in>set dataset. bucket env f \<noteq> None)
       \<and> videos = first_per_key (bucket env) {} dataset"
proof -
  have fs: "fast_select env dataset [] Map.empty = Inr videos"
    using run by (simp add: enumerate_videos_def)
  have empty: "{Inr k |k. truthy Map.empty k} = ({} :: (error + string) set)"
    by (simp add: truthy_def)
  have keys: "\<forall>f\<in>set dataset. \<exists>k. date_hour_key env f = Inr k"
    and v: "videos = first_per_key (date_hour_key env) {} dataset"
    using fast_select_spec[OF fs] by (simp_all add: empty)
  have b: "\<forall>f\<in>set dataset. bucket env f \<noteq> None"
  proof
    fix f assume "f \<in> set dataset"
    then obtain k where k: "date_hour_key env f = Inr k" using keys by auto
    show "bucket env f \<noteq> None"
    proof
      assume "bucket env f = None"
      from no_bucket_no_key[OF this] show False using k by auto
    qed
  qed
  have "filter (\<lambda>i. date_hour_key env (dataset ! i)
                       \<notin> date_hour_key env ` set (take i dataset)) [0..<length dataset]
      = filter (\<lambda>i. bucket env (dataset ! i)
                       \<notin> bucket env ` set (take i dataset)) [0..<length dataset]"
    using b by (intro first_positions_cong key_eq_bucket_eq[OF c]) simp_all
  then have "first_per_key (date_hour_key env) {} dataset = first_per_key (bucket env) {} dataset"
    by (simp add: first_per_key_positions)
  then show ?thesis using b v by simp
qed

text \<open>
  Claim C6. Let the timestamps be printed as pandas prints them. In fast mode
  (\<^verbatim>\<open>process_all\<close> false) the enumeration returns exactly when every file has a
  bucket, that is a camera field and a readable timestamp. When it returns, the
  videos kept have pairwise different buckets (camera, date, hour), so at most one
  video is kept per bucket; every bucket of the input is the bucket of a kept
  video; and the kept videos are, in the order of the input, exactly those at a
  position with no earlier video of the same bucket: the earliest of each bucket is
  kept and every later one is dropped.
\<close>

theorem fast_mode_first_per_bucket:
  assumes "pandas_timestamps env"
  shows "((\<exists>videos. enumerate_videos env False dataset = Inr videos)
            = (\<forall>f\<in>set dataset. bucket env f \<noteq> None))
         \<and> (\<forall>videos. enumerate_videos env False dataset = Inr videos
              \<longrightarrow> distinct (map (bucket env) videos)
                  \<and> bucket env ` set videos = bucket env ` set dataset
                  \<and> videos = map (\<lambda>i. dataset ! i)
                      (filter (\<lambda>i. bucket env (dataset ! i)
                                      \<notin> bucket env ` set (take i dataset))
                         [0..<length dataset]))"
proof -
  have returns: "(\<exists>videos. enumerate_videos env False dataset = Inr videos)
            = (\<forall>f\<in>set dataset. bucket env f \<noteq> None)"
  proof
    assume "\<exists>videos. enumerate_videos env False dataset = Inr videos"
    then obtain videos where "enumerate_videos env False dataset = Inr videos" by auto
    from fast_select_buckets[OF assms this]
    show "\<forall>f\<in>set dataset. bucket env f \<noteq> None" by simp
  next
    assume b: "\<forall>f\<in>set dataset. bucket env f \<noteq> None"
    have "\<forall>f\<in>set dataset. \<exists>k. date_hour_key env f = Inr k"
    proof
      fix f assume "f \<in> set dataset"
      then obtain c d h where "bucket env f = Some (c, d, h)" using b by fastforce
      from bucket_key[OF this] show "\<exists>k. date_hour_key env f = Inr k" by simp
    qed
    from fast_select_total[OF this, of "[]" Map.empty]
    show "\<exists>videos. enumerate_videos env False dataset = Inr videos"
      by (simp add: enumerate_videos_def)
  qed
  have kept: "\<forall>videos. enumerate_videos env False dataset = Inr videos
              \<longrightarrow> distinct (map (bucket env) videos)
                  \<and> bucket env ` set videos = bucket env ` set dataset
                  \<and> videos = map (\<lambda>i. dataset ! i)
                      (filter (\<lambda>i. bucket env (dataset ! i)
                                      \<notin> bucket env ` set (take i dataset))
                         [0..<length dataset])"
  proof (intro allI impI)
    fix videos assume "enumerate_videos env False dataset = Inr videos"
    from fast_select_buckets[OF assms this]
    have v: "videos = first_per_key (bucket env) {} dataset" by simp
    have d: "distinct (map (bucket env) videos)"
      unfolding v by (rule first_per_key_distinct)
    have i: "bucket env ` set videos = bucket env ` set dataset"
      unfolding v by (simp add: first_per_key_keys)
    have p: "videos = map (\<lambda>i. dataset ! i)
                      (filter (\<lambda>i. bucket env (dataset ! i)
                                      \<notin> bucket env ` set (take i dataset))
                         [0..<length dataset])"
      unfolding v by (simp add: first_per_key_positions)
    show "distinct (map (bucket env) videos)
                  \<and> bucket env ` set videos = bucket env ` set dataset
                  \<and> videos = map (\<lambda>i. dataset ! i)
                      (filter (\<lambda>i. bucket env (dataset ! i)
                                      \<notin> bucket env ` set (take i dataset))
                         [0..<length dataset])"
      by (intro conjI d i p)
  qed
  show ?thesis by (intro conjI returns kept)
qed

theorem fast_mode_first_per_bucket_witness:
  "pandas_timestamps demo_env
   \<and> enumerate_videos demo_env False (demo_dataset @ [''in/t5.camA.mp4''])
       = Inr [''in/t1.camA.mp4'', ''in/t3.camA.mp4'', ''in/t4.camB.mp4'', ''in/t5.camA.mp4'']
   \<and> bucket demo_env ''in/t1.camA.mp4'' = Some (''camA'', ''2021-03-04'', ''10'')
   \<and> bucket demo_env ''in/t2.camA.mp4'' = Some (''camA'', ''2021-03-04'', ''10'')
   \<and> bucket demo_env ''in/t3.camA.mp4'' = Some (''camA'', ''2021-03-04'', ''11'')
   \<and> bucket demo_env ''in/t4.camB.mp4'' = Some (''camB'', ''2021-03-04'', ''10'')
   \<and> bucket demo_env ''in/t5.camA.mp4'' = Some (''camA'', ''2021-03-05'', ''10'')
   \<and> distinct (map (bucket demo_env)
        [''in/t1.camA.mp4'', ''in/t3.camA.mp4'', ''in/t4.camB.mp4'', ''in/t5.camA.mp4''])"
proof -
  have c: "pandas_timestamps demo_env"
    unfolding pandas_timestamps_def
  proof (intro allI impI)
    fix ts d h m
    assume "to_datetime demo_env ts = Inr (d, h, m)"
    then have "(d, h) \<in> {(''2021-03-04'', ''10''), (''2021-03-04'', ''11''),
        (''2021-03-05'', ''10'')}"
      by (simp add: demo_env_def split: if_splits)
    then show "length d = 10 \<and> CHR '':'' \<notin> set h" by auto
  qed
  have h: "enumerate_videos demo_env False (demo_dataset @ [''in/t5.camA.mp4''])
       = Inr [''in/t1.camA.mp4'', ''in/t3.camA.mp4'', ''in/t4.camB.mp4'', ''in/t5.camA.mp4'']"
    by code_simp
  have b1: "bucket demo_env ''in/t1.camA.mp4'' = Some (''camA'', ''2021-03-04'', ''10'')"
    by code_simp
  have b2: "bucket demo_env ''in/t2.camA.mp4'' = Some (''camA'', ''2021-03-04'', ''10'')"
    by code_simp
  have b3: "bucket demo_env ''in/t3.camA.mp4'' = Some (''camA'', ''2021-03-04'', ''11'')"
    by code_simp
  have b4: "bucket demo_env ''in/t4.camB.mp4'' = Some (''camB'', ''2021-03-04'', ''10'')"
    by code_simp
  have b5: "bucket demo_env ''in/t5.camA.mp4'' = Some (''camA'', ''2021-03-05'', ''10'')"
    by code_simp
  have d: "distinct (map (bucket demo_env)
        [''in/t1.camA.mp4'', ''in/t3.camA.mp4'', ''in/t4.camB.mp4'', ''in/t5.camA.mp4''])"
    using fast_mode_first_per_bucket[OF c, THEN conjunct2, rule_format, OF h, THEN conjunct1] .
  show ?thesis by (intro conjI c h b1 b2 b3 b4 b5 d)
qed

section \<open>Export validation\<close>

lemma traverse_all2:
  "traverse f xs = Inr ys \<Longrightarrow> list_all2 (\<lambda>x y. f x = Inr y) xs ys"
  by (induction xs arbitrary: ys) (auto split: sum.splits)

lemma traverse_total:
  "\<forall>x\<in>set xs. \<exists>y. f x = Inr y \<Longrightarrow> \<exists>ys. traverse f xs = Inr ys"
  by (induction xs) auto

lemma float_lt_NaN [simp]: "\<not> float_lt a NaN" "\<not> float_lt NaN b"
  by (cases a; simp) (cases b; simp)

lemma in_range_le: "in_range q = (float_le q (Fin double_1_1) \<and> float_le (Fin 0) q)"
  by (cases q) (auto simp: in_range_def float_le_def)

lemma float_le_not_lt: "float_le a b \<Longrightarrow> \<not> float_lt b a"
  by (cases a; cases b) (auto simp: float_le_def)

lemma fold_max_NaN: "foldl (\<lambda>m y. if float_lt m y then y else m) NaN ys = NaN"
  by (induction ys) simp_all

lemma fold_min_NaN: "foldl (\<lambda>m y. if float_lt y m then y else m) NaN ys = NaN"
  by (induction ys) simp_all

lemma fold_max_le:
  "m \<noteq> NaN \<Longrightarrow>
   float_le (foldl (\<lambda>m y. if float_lt m y then y else m) m ys) d
     = (float_le m d \<and> (\<forall>y\<in>set ys. y = NaN \<or> float_le y d))"
proof (induction ys arbitrary: m)
  case Nil
  then show ?case by simp
next
  case (Cons y ys)
  show ?case
  proof (cases "float_lt m y")
    case True
    then have y: "y \<noteq> NaN" by auto
    have "float_le y d \<Longrightarrow> float_le m d"
      using True by (cases m; cases y; cases d) (auto simp: float_le_def)
    then show ?thesis using True y Cons.IH[OF y] by auto
  next
    case False
    have "y \<noteq> NaN \<Longrightarrow> float_le m d \<Longrightarrow> float_le y d"
      using False Cons.prems by (cases m; cases y; cases d) (auto simp: float_le_def)
    then show ?thesis using False Cons.IH[OF Cons.prems] by auto
  qed
qed

lemma fold_min_ge:
  "m \<noteq> NaN \<Longrightarrow>
   float_le d (foldl (\<lambda>m y. if float_lt y m then y else m) m ys)
     = (float_le d m \<and> (\<forall>y\<in>set ys. y = NaN \<or> float_le d y))"
proof (induction ys arbitrary: m)
  case Nil
  then show ?case by simp
next
  case (Cons y ys)
  show ?case
  proof (cases "float_lt y m")
    case True
    then have y: "y \<noteq> NaN" by auto
    have "float_le d y \<Longrightarrow> float_le d m"
      using True by (cases m; cases y; cases d) (auto simp: float_le_def)
    then show ?thesis using True y Cons.IH[OF y] by auto
  next
    case False
    have "y \<noteq> NaN \<Longrightarrow> float_le d m \<Longrightarrow> float_le d y"
      using False Cons.prems by (cases m; cases y; cases d) (auto simp: float_le_def)
    then show ?thesis using False Cons.IH[OF Cons.prems] by auto
  qed
qed

lemma validate_passes:
  "(validate env cs = None)
     = (cs \<noteq> [] \<and> hd cs \<noteq> NaN \<and> (\<forall>q\<in>set cs. q = NaN \<or> in_range q))"
proof (cases cs)
  case Nil
  then show ?thesis by (simp add: validate_def py_max_def)
next
  case (Cons c rest)
  define mx where "mx = foldl (\<lambda>m y. if float_lt m y then y else m) c rest"
  define mn where "mn = foldl (\<lambda>m y. if float_lt y m then y else m) c rest"
  have v: "(validate env cs = None)
      = (float_le mx (Fin double_1_1) \<and> float_le (Fin 0) mn)"
    using float_le_not_lt[of mx "Fin double_1_1"] float_le_not_lt[of "Fin 0" mn]
    by (auto simp: validate_def py_max_def py_min_def Cons mx_def[symmetric] mn_def[symmetric]
             split: option.splits)
  show ?thesis
  proof (cases "c = NaN")
    case True
    then have "mx = NaN" by (simp add: mx_def fold_max_NaN)
    then have "\<not> float_le mx (Fin double_1_1)" by (simp add: float_le_def)
    then show ?thesis using v True Cons by simp
  next
    case False
    have "float_le mx (Fin double_1_1)
        = (float_le c (Fin double_1_1) \<and> (\<forall>y\<in>set rest. y = NaN \<or> float_le y (Fin double_1_1)))"
      unfolding mx_def by (rule fold_max_le[OF False])
    moreover have "float_le (Fin 0) mn
        = (float_le (Fin 0) c \<and> (\<forall>y\<in>set rest. y = NaN \<or> float_le (Fin 0) y))"
      unfolding mn_def by (rule fold_min_ge[OF False])
    ultimately show ?thesis using v False Cons by (auto simp: in_range_le)
  qed
qed

lemma normalized_four:
  "normalized env w h r = Some qs \<Longrightarrow> \<exists>q0 q1 q2 q3. qs = [q0, q1, q2, q3]"
  by (auto simp: normalized_def split: option.splits cell.splits sum.splits)

lemma convert_row_normalized:
  "(convert_row env w h id_map r = Inr t)
     = (normalized env w h r = Some [nxmin t, nxmax t, nymin t, nymax t]
        \<and> r ''class'' = Some (Str (ntext t)) \<and> id_map (ntext t) = Some (nlabel t))"
proof -
  have c: "\<And>k n q. (coordinate env r k n = Inr q) = (\<exists>x. r k = Some (Num x) \<and> truediv env x n = Inr q)"
    by (auto simp: coordinate_def split: option.splits cell.splits)
  have k: "\<And>c i. (class_of id_map r = Inr (c, i)) = (r ''class'' = Some (Str c) \<and> id_map c = Some i)"
    by (auto simp: class_of_def split: option.splits cell.splits)
  have n: "\<And>q0 q1 q2 q3. (normalized env w h r = Some [q0, q1, q2, q3])
      = (coordinate env r ''xmin'' w = Inr q0 \<and> coordinate env r ''xmax'' w = Inr q1
         \<and> coordinate env r ''ymin'' h = Inr q2 \<and> coordinate env r ''ymax'' h = Inr q3)"
    unfolding c by (auto simp: normalized_def split: option.splits cell.splits sum.splits)
  have "(convert_row env w h id_map r = Inr t)
      = (coordinate env r ''xmin'' w = Inr (nxmin t) \<and> coordinate env r ''xmax'' w = Inr (nxmax t)
         \<and> coordinate env r ''ymin'' h = Inr (nymin t) \<and> coordinate env r ''ymax'' h = Inr (nymax t)
         \<and> class_of id_map r = Inr (ntext t, nlabel t))"
    by (cases t) (auto simp: convert_row_def split: sum.splits)
  then show ?thesis unfolding n k by simp
qed


lemma traverse_returns:
  "(\<exists>ys. traverse f xs = Inr ys) = (\<forall>x\<in>set xs. \<exists>y. f x = Inr y)"
  by (induction xs) (auto split: sum.splits)

lemma convert_row_returns:
  "(\<exists>t. convert_row env w h id_map r = Inr t)
     = (known_class id_map r \<and> normalized env w h r \<noteq> None)"
proof
  assume "\<exists>t. convert_row env w h id_map r = Inr t"
  then obtain t where "convert_row env w h id_map r = Inr t" by auto
  then show "known_class id_map r \<and> normalized env w h r \<noteq> None"
    unfolding convert_row_normalized by (auto simp: known_class_def)
next
  assume a: "known_class id_map r \<and> normalized env w h r \<noteq> None"
  then obtain qs where "normalized env w h r = Some qs" by auto
  then obtain q0 q1 q2 q3 where n: "normalized env w h r = Some [q0, q1, q2, q3]"
    using normalized_four[of env w h r qs] by auto
  obtain c i where c: "r ''class'' = Some (Str c)" and i: "id_map c = Some i"
    using a by (auto simp: known_class_def split: option.splits cell.splits)
  have "convert_row env w h id_map r
      = Inr \<lparr>nxmin = q0, nxmax = q1, nymin = q2, nymax = q3, ntext = c, nlabel = i\<rparr>"
    unfolding convert_row_normalized using n c i by simp
  then show "\<exists>t. convert_row env w h id_map r = Inr t" by (rule exI)
qed

lemma converted_coordinates:
  "list_all2 (\<lambda>r t. convert_row env w h id_map r = Inr t) rows converted
   \<Longrightarrow> set (map nxmin converted @ map nxmax converted
             @ map nymin converted @ map nymax converted)
       = (\<Union>r\<in>set rows. case normalized env w h r of Some qs \<Rightarrow> set qs | None \<Rightarrow> {})"
proof (induction rule: list_all2_induct)
  case Nil
  then show ?case by simp
next
  case (Cons r rows t converted)
  have "normalized env w h r = Some [nxmin t, nxmax t, nymin t, nymax t]"
    using Cons.hyps(1) unfolding convert_row_normalized by simp
  then show ?case using Cons.IH by auto
qed

lemma converted_first:
  assumes "list_all2 (\<lambda>r t. convert_row env w h id_map r = Inr t) rows converted"
    and "rows \<noteq> []"
  shows "\<exists>qs. normalized env w h (hd rows) = Some qs
           \<and> hd qs = hd (map nxmin converted @ map nxmax converted
                          @ map nymin converted @ map nymax converted)"
proof -
  obtain r rs where rows: "rows = r # rs" using assms(2) by (cases rows) auto
  then obtain t ts where conv: "converted = t # ts" and c: "convert_row env w h id_map r = Inr t"
    using assms(1) by (auto simp: list_all2_Cons1)
  have "normalized env w h r = Some [nxmin t, nxmax t, nymin t, nymax t]"
    using c unfolding convert_row_normalized by simp
  then show ?thesis by (simp add: rows conv)
qed

lemma create_tf_example_returns:
  "(\<exists>ex. create_tf_example env grp id_map = Inr ex)
     = (\<exists>w h enc name converted.
          open_image env (group_filename grp) = Inr (w, h, enc)
        \<and> group_filename grp = Str name
        \<and> traverse (convert_row env w h id_map) (group_object grp) = Inr converted
        \<and> validate env (map nxmin converted @ map nxmax converted
                          @ map nymin converted @ map nymax converted) = None)"
  by (auto simp: create_tf_example_def Let_def
           split: sum.splits cell.splits option.splits prod.splits)

lemma rows_validated:
  assumes tr: "traverse (convert_row env w h id_map) rows = Inr converted"
  shows "(validate env (map nxmin converted @ map nxmax converted
                          @ map nymin converted @ map nymax converted) = None)
       = (rows \<noteq> []
          \<and> (\<forall>r\<in>set rows. \<exists>qs. normalized env w h r = Some qs
                                 \<and> (\<forall>q\<in>set qs. q = NaN \<or> in_range q))
          \<and> (\<exists>qs. normalized env w h (hd rows) = Some qs \<and> hd qs \<noteq> NaN))"
proof -
  define cs where "cs = map nxmin converted @ map nxmax converted
                          @ map nymin converted @ map nymax converted"
  note a2 = traverse_all2[OF tr]
  have len: "length converted = length rows" using tr by (rule traverse_length)
  have ne: "(cs \<noteq> []) = (rows \<noteq> [])" using len by (auto simp: cs_def)
  have some: "\<forall>r\<in>set rows. normalized env w h r \<noteq> None"
    using traverse_returns[of "convert_row env w h id_map" rows] tr
      convert_row_returns[of env w h id_map]
    by blast
  have set_cs: "set cs = (\<Union>r\<in>set rows. case normalized env w h r of
                             Some qs \<Rightarrow> set qs | None \<Rightarrow> {})"
    unfolding cs_def using a2 by (rule converted_coordinates)
  have all: "(\<forall>q\<in>set cs. q = NaN \<or> in_range q)
      = (\<forall>r\<in>set rows. \<exists>qs. normalized env w h r = Some qs
                                 \<and> (\<forall>q\<in>set qs. q = NaN \<or> in_range q))"
  proof
    assume l: "\<forall>q\<in>set cs. q = NaN \<or> in_range q"
    show "\<forall>r\<in>set rows. \<exists>qs. normalized env w h r = Some qs
                                 \<and> (\<forall>q\<in>set qs. q = NaN \<or> in_range q)"
    proof
      fix r assume r: "r \<in> set rows"
      then obtain qs where qs: "normalized env w h r = Some qs" using some by auto
      then have "set qs \<subseteq> set cs" unfolding set_cs using r by force
      then show "\<exists>qs. normalized env w h r = Some qs
                                 \<and> (\<forall>q\<in>set qs. q = NaN \<or> in_range q)"
        using qs l by auto
    qed
  next
    assume r: "\<forall>r\<in>set rows. \<exists>qs. normalized env w h r = Some qs
                                 \<and> (\<forall>q\<in>set qs. q = NaN \<or> in_range q)"
    show "\<forall>q\<in>set cs. q = NaN \<or> in_range q"
      unfolding set_cs using r by fastforce
  qed
  have first: "rows \<noteq> [] \<Longrightarrow> (hd cs \<noteq> NaN)
      = (\<exists>qs. normalized env w h (hd rows) = Some qs \<and> hd qs \<noteq> NaN)"
    using converted_first[OF a2] unfolding cs_def[symmetric] by auto
  show ?thesis
    unfolding cs_def[symmetric] validate_passes ne all using first by auto
qed

text \<open>
  Claim C7, amended. The conversion returns an example exactly when the image
  opens, the file name is a string, the group has a row, every row has a class
  that is a string of the label map and four coordinate cells that are numbers and
  can be divided, the first coordinate compared (the normalized \<^verbatim>\<open>xmin\<close> of the
  first row) is not NaN, and every normalized coordinate that is not NaN lies in
  \<open>[0.0, 1.1]\<close>, 1.1 being the double of the literal. It never returns an example
  when a normalized coordinate is above 1.1 or below 0.0. A normalized coordinate
  that is NaN and is not the first one is not noticed.
\<close>

theorem export_validation:
  "((\<exists>ex. create_tf_example env grp id_map = Inr ex)
      = (\<exists>w h enc name.
           open_image env (group_filename grp) = Inr (w, h, enc)
         \<and> group_filename grp = Str name
         \<and> group_object grp \<noteq> []
         \<and> (\<forall>r\<in>set (group_object grp).
              known_class id_map r
              \<and> (\<exists>qs. normalized env w h r = Some qs
                       \<and> (\<forall>q\<in>set qs. q = NaN \<or> in_range q)))
         \<and> (\<exists>qs. normalized env w h (hd (group_object grp)) = Some qs \<and> hd qs \<noteq> NaN)))
   \<and> (\<forall>w h enc r qs q.
         open_image env (group_filename grp) = Inr (w, h, enc)
         \<and> r \<in> set (group_object grp)
         \<and> normalized env w h r = Some qs \<and> q \<in> set qs
         \<and> (float_lt (Fin double_1_1) q \<or> float_lt q (Fin 0))
         \<longrightarrow> (\<exists>e. create_tf_example env grp id_map = Inl e))"
proof -
  define rows where "rows = group_object grp"
  have main: "(\<exists>ex. create_tf_example env grp id_map = Inr ex)
      = (\<exists>w h enc name.
           open_image env (group_filename grp) = Inr (w, h, enc)
         \<and> group_filename grp = Str name
         \<and> rows \<noteq> []
         \<and> (\<forall>r\<in>set rows.
              known_class id_map r
              \<and> (\<exists>qs. normalized env w h r = Some qs
                       \<and> (\<forall>q\<in>set qs. q = NaN \<or> in_range q)))
         \<and> (\<exists>qs. normalized env w h (hd rows) = Some qs \<and> hd qs \<noteq> NaN))"
    (is "?L = ?R")
  proof
    assume ?L
    then obtain w h enc name converted where
      o: "open_image env (group_filename grp) = Inr (w, h, enc)"
      and n: "group_filename grp = Str name"
      and tr: "traverse (convert_row env w h id_map) rows = Inr converted"
      and v: "validate env (map nxmin converted @ map nxmax converted
                          @ map nymin converted @ map nymax converted) = None"
      unfolding create_tf_example_returns rows_def by blast
    have k: "\<forall>r\<in>set rows. known_class id_map r"
      using traverse_returns[of "convert_row env w h id_map" rows] tr
        convert_row_returns[of env w h id_map]
      by blast
    note c = v[unfolded rows_validated[OF tr]]
    have "rows \<noteq> []
         \<and> (\<forall>r\<in>set rows.
              known_class id_map r
              \<and> (\<exists>qs. normalized env w h r = Some qs
                       \<and> (\<forall>q\<in>set qs. q = NaN \<or> in_range q)))
         \<and> (\<exists>qs. normalized env w h (hd rows) = Some qs \<and> hd qs \<noteq> NaN)"
      using c k by simp
    then show ?R using o n by blast
  next
    assume ?R
    then obtain w h enc name where
      o: "open_image env (group_filename grp) = Inr (w, h, enc)"
      and n: "group_filename grp = Str name"
      and ne: "rows \<noteq> []"
      and all: "\<forall>r\<in>set rows.
              known_class id_map r
              \<and> (\<exists>qs. normalized env w h r = Some qs
                       \<and> (\<forall>q\<in>set qs. q = NaN \<or> in_range q))"
      and first: "\<exists>qs. normalized env w h (hd rows) = Some qs \<and> hd qs \<noteq> NaN"
      by blast
    have "\<forall>r\<in>set rows. \<exists>t. convert_row env w h id_map r = Inr t"
      unfolding convert_row_returns using all by auto
    then obtain converted where tr: "traverse (convert_row env w h id_map) rows = Inr converted"
      using traverse_returns[of "convert_row env w h id_map" rows] by auto
    have "validate env (map nxmin converted @ map nxmax converted
                          @ map nymin converted @ map nymax converted) = None"
      unfolding rows_validated[OF tr] using ne all first by simp
    then show ?L
      unfolding create_tf_example_returns using o n tr unfolding rows_def by blast
  qed
  have abort: "\<forall>w h enc r qs q.
         open_image env (group_filename grp) = Inr (w, h, enc)
         \<and> r \<in> set rows
         \<and> normalized env w h r = Some qs \<and> q \<in> set qs
         \<and> (float_lt (Fin double_1_1) q \<or> float_lt q (Fin 0))
         \<longrightarrow> (\<exists>e. create_tf_example env grp id_map = Inl e)"
  proof (intro allI impI)
    fix w h enc r qs q
    assume a: "open_image env (group_filename grp) = Inr (w, h, enc)
         \<and> r \<in> set rows
         \<and> normalized env w h r = Some qs \<and> q \<in> set qs
         \<and> (float_lt (Fin double_1_1) q \<or> float_lt q (Fin 0))"
    then have q: "q \<noteq> NaN" "\<not> in_range q"
      using float_le_not_lt[of q "Fin double_1_1"] float_le_not_lt[of "Fin 0" q]
      by (auto simp: in_range_le)
    have "\<not> (\<exists>ex. create_tf_example env grp id_map = Inr ex)"
    proof
      assume "\<exists>ex. create_tf_example env grp id_map = Inr ex"
      then obtain w' h' enc' where
        o: "open_image env (group_filename grp) = Inr (w', h', enc')"
        and all: "\<forall>r\<in>set rows. \<exists>qs. normalized env w' h' r = Some qs
                       \<and> (\<forall>q\<in>set qs. q = NaN \<or> in_range q)"
        unfolding main by blast
      have "w' = w" "h' = h" using o a by simp_all
      then show False using all a q by fastforce
    qed
    then show "\<exists>e. create_tf_example env grp id_map = Inl e"
      by (cases "create_tf_example env grp id_map") auto
  qed
  show ?thesis using main abort unfolding rows_def by (intro conjI)
qed


theorem export_validation_witness:
  "normalized demo_image_env 100 100 (demo_row (Fin 10) (Fin 105) ''car'')
     = Some [Fin (3602879701896397 / 36028797018963968),
             Fin (4728779608739021 / 4503599627370496), Fin 0, Fin (1 / 2)]
   \<and> (\<exists>ex. create_tf_example demo_image_env
              \<lparr>group_filename = Str ''a.jpg'',
               group_object = [demo_row (Fin 10) (Fin 105) ''car'']\<rparr>
              [''car'' \<mapsto> 1] = Inr ex)
   \<and> normalized demo_image_env 100 100 (demo_row (Fin 10) (Fin 120) ''car'')
     = Some [Fin (3602879701896397 / 36028797018963968),
             Fin (5404319552844595 / 4503599627370496), Fin 0, Fin (1 / 2)]
   \<and> (\<exists>e. create_tf_example demo_image_env
              \<lparr>group_filename = Str ''a.jpg'',
               group_object = [demo_row (Fin 10) (Fin 120) ''car'']\<rparr>
              [''car'' \<mapsto> 1] = Inl e)
   \<and> create_tf_example demo_image_env
        \<lparr>group_filename = Str ''a.jpg'',
         group_object = [demo_row (Fin 10) (Fin 120) ''car'']\<rparr>
        [''car'' \<mapsto> 1] = Inl BdbQuit
   \<and> create_tf_example (demo_image_env\<lparr>pdb_session := (\<lambda>line. None)\<rparr>)
        \<lparr>group_filename = Str ''a.jpg'',
         group_object = [demo_row (Fin 10) (Fin 120) ''car'']\<rparr>
        [''car'' \<mapsto> 1] = Inl AssertionError"
proof -
  define good where "good = \<lparr>group_filename = Str ''a.jpg'',
               group_object = [demo_row (Fin 10) (Fin 105) ''car'']\<rparr>"
  define bad where "bad = \<lparr>group_filename = Str ''a.jpg'',
               group_object = [demo_row (Fin 10) (Fin 120) ''car'']\<rparr>"
  have n1: "normalized demo_image_env 100 100 (demo_row (Fin 10) (Fin 105) ''car'')
     = Some [Fin (3602879701896397 / 36028797018963968),
             Fin (4728779608739021 / 4503599627370496), Fin 0, Fin (1 / 2)]"
    by (simp add: normalized_def demo_row_def demo_image_env_def demo_truediv_def)
  have n2: "normalized demo_image_env 100 100 (demo_row (Fin 10) (Fin 120) ''car'')
     = Some [Fin (3602879701896397 / 36028797018963968),
             Fin (5404319552844595 / 4503599627370496), Fin 0, Fin (1 / 2)]"
    by (simp add: normalized_def demo_row_def demo_image_env_def demo_truediv_def)
  have o1: "open_image demo_image_env (group_filename good) = Inr (100, 100, 0)"
    by (simp add: demo_image_env_def good_def)
  have o2: "open_image demo_image_env (group_filename bad) = Inr (100, 100, 0)"
    by (simp add: demo_image_env_def bad_def)
  have k: "known_class [''car'' \<mapsto> 1] (demo_row (Fin 10) (Fin 105) ''car'')"
    by (simp add: known_class_def demo_row_def)
  have r: "\<forall>q\<in>set [Fin (3602879701896397 / 36028797018963968),
             Fin (4728779608739021 / 4503599627370496), Fin 0, Fin (1 / 2)].
             q = NaN \<or> in_range q"
    by (simp add: in_range_def double_1_1_def)
  have rows: "\<forall>r\<in>set (group_object good).
              known_class [''car'' \<mapsto> 1] r
              \<and> (\<exists>qs. normalized demo_image_env 100 100 r = Some qs
                       \<and> (\<forall>q\<in>set qs. q = NaN \<or> in_range q))"
    using k n1 r by (simp add: good_def)
  have first: "\<exists>qs. normalized demo_image_env 100 100 (hd (group_object good)) = Some qs
      \<and> hd qs \<noteq> NaN"
    using n1 by (simp add: good_def)
  have rhs: "\<exists>w h enc name.
           open_image demo_image_env (group_filename good) = Inr (w, h, enc)
         \<and> group_filename good = Str name
         \<and> group_object good \<noteq> []
         \<and> (\<forall>r\<in>set (group_object good).
              known_class [''car'' \<mapsto> 1] r
              \<and> (\<exists>qs. normalized demo_image_env w h r = Some qs
                       \<and> (\<forall>q\<in>set qs. q = NaN \<or> in_range q)))
         \<and> (\<exists>qs. normalized demo_image_env w h (hd (group_object good)) = Some qs
                  \<and> hd qs \<noteq> NaN)"
    apply (rule exI[of _ 100], rule exI[of _ 100], rule exI[of _ 0], rule exI[of _ "''a.jpg''"])
    using o1 rows first by (simp add: good_def)
  have s: "\<exists>ex. create_tf_example demo_image_env good [''car'' \<mapsto> 1] = Inr ex"
    using export_validation[of demo_image_env good "[''car'' \<mapsto> 1]", THEN conjunct1] rhs
    by (rule iffD2)
  have m: "Fin (5404319552844595 / 4503599627370496)
      \<in> set [Fin (3602879701896397 / 36028797018963968),
             Fin (5404319552844595 / 4503599627370496), Fin 0, Fin (1 / 2)]"
    by simp
  have big: "float_lt (Fin double_1_1) (Fin (5404319552844595 / 4503599627370496))"
    by (simp add: double_1_1_def)
  have inb: "demo_row (Fin 10) (Fin 120) ''car'' \<in> set (group_object bad)"
    by (simp add: bad_def)
  have prem: "open_image demo_image_env (group_filename bad) = Inr (100, 100, 0)
      \<and> demo_row (Fin 10) (Fin 120) ''car'' \<in> set (group_object bad)
      \<and> normalized demo_image_env 100 100 (demo_row (Fin 10) (Fin 120) ''car'')
          = Some [Fin (3602879701896397 / 36028797018963968),
                  Fin (5404319552844595 / 4503599627370496), Fin 0, Fin (1 / 2)]
      \<and> Fin (5404319552844595 / 4503599627370496)
          \<in> set [Fin (3602879701896397 / 36028797018963968),
                   Fin (5404319552844595 / 4503599627370496), Fin 0, Fin (1 / 2)]
      \<and> (float_lt (Fin double_1_1) (Fin (5404319552844595 / 4503599627370496))
           \<or> float_lt (Fin (5404319552844595 / 4503599627370496)) (Fin 0))"
    by (intro conjI disjI1 o2 inb n2 m big)
  have a: "\<exists>e. create_tf_example demo_image_env bad [''car'' \<mapsto> 1] = Inl e"
    by (rule export_validation[of demo_image_env bad "[''car'' \<mapsto> 1]", THEN conjunct2,
          rule_format, OF prem])
  have q: "create_tf_example demo_image_env
        \<lparr>group_filename = Str ''a.jpg'',
         group_object = [demo_row (Fin 10) (Fin 120) ''car'']\<rparr>
        [''car'' \<mapsto> 1] = Inl BdbQuit"
    by code_simp
  have c: "create_tf_example (demo_image_env\<lparr>pdb_session := (\<lambda>line. None)\<rparr>)
        \<lparr>group_filename = Str ''a.jpg'',
         group_object = [demo_row (Fin 10) (Fin 120) ''car'']\<rparr>
        [''car'' \<mapsto> 1] = Inl AssertionError"
    by code_simp
  show ?thesis
    by (intro conjI n1 n2 s[unfolded good_def] a[unfolded bad_def] q c)
qed

text \<open>
  Two groups against the claim as it was stated. In the first every normalized
  coordinate lies in \<open>[0.0, 1.1]\<close> and the conversion fails, with a KeyError,
  because the class is not in the label map. In the second the \<^verbatim>\<open>xmax\<close> cell is
  empty, its normalized coordinate is NaN, which lies in no interval, and the
  conversion returns the example.
\<close>

theorem export_validation_counterexample:
  "create_tf_example demo_image_env
     \<lparr>group_filename = Str ''a.jpg'',
      group_object = [demo_row (Fin 10) (Fin 105) ''dog'']\<rparr>
     [''car'' \<mapsto> 1] = Inl KeyError
   \<and> normalized demo_image_env 100 100 (demo_row (Fin 10) (Fin 105) ''dog'')
     = Some [Fin (3602879701896397 / 36028797018963968),
             Fin (4728779608739021 / 4503599627370496), Fin 0, Fin (1 / 2)]
   \<and> in_range (Fin (3602879701896397 / 36028797018963968))
   \<and> in_range (Fin (4728779608739021 / 4503599627370496))
   \<and> in_range (Fin 0)
   \<and> in_range (Fin (1 / 2))
   \<and> create_tf_example demo_image_env
       \<lparr>group_filename = Str ''a.jpg'',
        group_object = [demo_row (Fin 10) NaN ''car'']\<rparr>
       [''car'' \<mapsto> 1]
     = Inr \<lparr>image_height = 100, image_width = 100, image_filename = ''a.jpg'',
            image_encoded = 0,
            bbox_xmin = [Fin (3602879701896397 / 36028797018963968)],
            bbox_xmax = [NaN], bbox_ymin = [Fin 0], bbox_ymax = [Fin (1 / 2)],
            class_text = [''car''], class_label = [1]\<rparr>
   \<and> normalized demo_image_env 100 100 (demo_row (Fin 10) NaN ''car'')
     = Some [Fin (3602879701896397 / 36028797018963968), NaN, Fin 0, Fin (1 / 2)]
   \<and> \<not> in_range NaN"
proof -
  have a: "create_tf_example demo_image_env
     \<lparr>group_filename = Str ''a.jpg'',
      group_object = [demo_row (Fin 10) (Fin 105) ''dog'']\<rparr>
     [''car'' \<mapsto> 1] = Inl KeyError"
    by code_simp
  have b: "normalized demo_image_env 100 100 (demo_row (Fin 10) (Fin 105) ''dog'')
     = Some [Fin (3602879701896397 / 36028797018963968),
             Fin (4728779608739021 / 4503599627370496), Fin 0, Fin (1 / 2)]"
    by (simp add: normalized_def demo_row_def demo_image_env_def demo_truediv_def)
  have c: "in_range (Fin (3602879701896397 / 36028797018963968))"
    "in_range (Fin (4728779608739021 / 4503599627370496))"
    "in_range (Fin 0)" "in_range (Fin (1 / 2))" "\<not> in_range NaN"
    by (simp_all add: in_range_def double_1_1_def)
  have d: "create_tf_example demo_image_env
       \<lparr>group_filename = Str ''a.jpg'',
        group_object = [demo_row (Fin 10) NaN ''car'']\<rparr>
       [''car'' \<mapsto> 1]
     = Inr \<lparr>image_height = 100, image_width = 100, image_filename = ''a.jpg'',
            image_encoded = 0,
            bbox_xmin = [Fin (3602879701896397 / 36028797018963968)],
            bbox_xmax = [NaN], bbox_ymin = [Fin 0], bbox_ymax = [Fin (1 / 2)],
            class_text = [''car''], class_label = [1]\<rparr>"
    by code_simp
  have e: "normalized demo_image_env 100 100 (demo_row (Fin 10) NaN ''car'')
     = Some [Fin (3602879701896397 / 36028797018963968), NaN, Fin 0, Fin (1 / 2)]"
    by (simp add: normalized_def demo_row_def demo_image_env_def demo_truediv_def)
  show ?thesis by (intro conjI a b c d e)
qed

section \<open>The classification top-K reduction\<close>

lemma get_top_torch_shape:
  assumes "get_top_torch ap fmt preds topn = Inr t"
  shows "\<exists>i j. i < length preds \<and> j < length preds
           \<and> t = TorchTop [str_nat i, fmt (preds ! i)] [str_nat j, fmt (preds ! j)]"
proof -
  define k where "k = (if topn > int (length preds) then int (length preds) else topn)"
  obtain part where part: "ap (map uminus preds) 5 = Inr part"
    using assms by (auto simp: get_top_torch_def Let_def split: sum.splits)
  define g where "g = (\<lambda>idx. case py_nth preds idx of
                                   Inl e \<Rightarrow> Inl e
                                 | Inr x \<Rightarrow> Inr [str_nat idx, fmt x])"
  obtain results where res: "traverse g (py_prefix k part) = Inr results"
    and r0: "py_nth results 0 = Inr (case t of TorchTop a b \<Rightarrow> a)"
    and r1: "py_nth results 1 = Inr (case t of TorchTop a b \<Rightarrow> b)"
    and tt: "\<exists>a b. t = TorchTop a b"
    using assms part
    by (auto simp: get_top_torch_def Let_def k_def g_def split: sum.splits)
  have each: "\<And>xs ys n. traverse g xs = Inr ys \<Longrightarrow> n < length ys \<Longrightarrow>
      \<exists>i. i < length preds \<and> ys ! n = [str_nat i, fmt (preds ! i)]"
  proof -
    fix xs ys n
    show "traverse g xs = Inr ys \<Longrightarrow> n < length ys \<Longrightarrow>
      \<exists>i. i < length preds \<and> ys ! n = [str_nat i, fmt (preds ! i)]"
    proof (induction xs arbitrary: ys n)
      case Nil
      then show ?case by simp
    next
      case (Cons x xs)
      from Cons.prems(1) obtain y ys' where y: "g x = Inr y"
        and ys': "traverse g xs = Inr ys'" and ys: "ys = y # ys'"
        by (auto split: sum.splits)
      from y have yx: "x < length preds \<and> y = [str_nat x, fmt (preds ! x)]"
        by (auto simp: g_def py_nth_def split: if_splits)
      show ?case
      proof (cases n)
        case 0
        then show ?thesis using yx ys by auto
      next
        case (Suc n')
        then have "n' < length ys'" using Cons.prems(2) ys by simp
        from Cons.IH[OF ys' this] show ?thesis using ys Suc by simp
      qed
    qed
  qed
  have l0: "0 < length results" and l1: "1 < length results"
    using r0 r1 by (auto simp: py_nth_def split: if_splits)
  obtain i where i: "i < length preds" "results ! 0 = [str_nat i, fmt (preds ! i)]"
    using each[OF res l0] by blast
  obtain j where j: "j < length preds" "results ! 1 = [str_nat j, fmt (preds ! j)]"
    using each[OF res l1] by blast
  obtain a b where ab: "t = TorchTop a b" using tt by blast
  have "a = results ! 0" "b = results ! 1"
    using r0 r1 l0 l1 ab by (auto simp: py_nth_def)
  then show ?thesis using i j ab by auto
qed

text \<open>
  Claim C1 does not hold of the code. For twelve scores and the default \<open>K = 10\<close>,
  with a partition numpy may return (the six highest scores first, the rest in any
  order), the first ten candidates leave out the classes 4 and 5, which are among
  the ten highest, and the dict returned holds only the first two
  \<^verbatim>\<open>[index, score]\<close> pairs, under the keys \<^verbatim>\<open>'idxs'\<close> and \<^verbatim>\<open>'scores'\<close>.
\<close>

theorem get_top_torch_two_pairs:
  "argpartition_spec
     (map uminus [1 / 100, 2 / 100, 3 / 100, 4 / 100, 5 / 100, 6 / 100,
                  7 / 100, 8 / 100, 9 / 100, 10 / 100, 11 / 100, 12 / 100])
     5 [11, 10, 9, 8, 7, 6, 0, 1, 2, 3, 4, 5]
   \<and> py_prefix 10 [11, 10, 9, 8, 7, 6, 0, 1, 2, 3, 4, 5::nat] = [11, 10, 9, 8, 7, 6, 0, 1, 2, 3]
   \<and> get_top_torch (\<lambda>a kth. Inr [11, 10, 9, 8, 7, 6, 0, 1, 2, 3, 4, 5]) fmt
        [1 / 100, 2 / 100, 3 / 100, 4 / 100, 5 / 100, 6 / 100,
         7 / 100, 8 / 100, 9 / 100, 10 / 100, 11 / 100, 12 / 100] 10
       = Inr (TorchTop [''11'', fmt (12 / 100)] [''10'', fmt (11 / 100)])"
proof -
  have a: "argpartition_spec
     (map uminus [1 / 100, 2 / 100, 3 / 100, 4 / 100, 5 / 100, 6 / 100,
                  7 / 100, 8 / 100, 9 / 100, 10 / 100, 11 / 100, 12 / 100])
     5 [11, 10, 9, 8, 7, 6, 0, 1, 2, 3, 4, 5]"
    by code_simp
  have b: "py_prefix 10 [11, 10, 9, 8, 7, 6, 0, 1, 2, 3, 4, 5::nat]
      = [11, 10, 9, 8, 7, 6, 0, 1, 2, 3]"
    by (simp add: py_prefix_def)
  have s: "str_nat 11 = ''11''" "str_nat 10 = ''10''" by code_simp+
  have c: "get_top_torch (\<lambda>a kth. Inr [11, 10, 9, 8, 7, 6, 0, 1, 2, 3, 4, 5]) fmt
        [1 / 100, 2 / 100, 3 / 100, 4 / 100, 5 / 100, 6 / 100,
         7 / 100, 8 / 100, 9 / 100, 10 / 100, 11 / 100, 12 / 100] 10
       = Inr (TorchTop [''11'', fmt (12 / 100)] [''10'', fmt (11 / 100)])"
    unfolding get_top_torch_def Let_def b
    by (simp add: py_nth_def py_prefix_def s)
  show ?thesis by (intro conjI a b c)
qed

end
